theory Spec2Isabelle
  imports Main "HOL-Library.AList"
begin

section \<open>Shared vocabulary\<close>

text \<open>
  Exceptions of the JavaScript runtime that the modelled code can meet. A function whose
  result type is \<open>js_error + 'a\<close> throws when it yields \<open>Inl\<close> and returns when it
  yields \<open>Inr\<close>.
\<close>

datatype js_error = TypeError | SyntaxError | NetworkError | RangeError

text \<open>
  \<open>String.prototype.split\<close> with a one-character separator: the pieces between the
  separators, empty pieces included; the result is never empty.
\<close>

fun split_on :: "char \<Rightarrow> string \<Rightarrow> string list" where
  "split_on c [] = [[]]"
| "split_on c (x # xs) =
     (if x = c then [] # split_on c xs
      else (case split_on c xs of
              [] \<Rightarrow> [[x]]
            | w # ws \<Rightarrow> (x # w) # ws))"

text \<open>\<open>Number.prototype.toString\<close> on a non-negative integer counter.\<close>

definition digit_char :: "nat \<Rightarrow> char" where
  "digit_char n = ''0123456789'' ! (n mod 10)"

fun string_of_nat :: "nat \<Rightarrow> string" where
  "string_of_nat n =
     (if n < 10 then [digit_char n]
      else string_of_nat (n div 10) @ [digit_char (n mod 10)])"

declare string_of_nat.simps [simp del]

section \<open>base-interceptor.ts: BaseInterceptor\<close>

text \<open>
  \<open>new URL(url).pathname\<close> belongs to the browser. It is a parameter of the model:
  \<open>None\<close> when the constructor throws, the path name otherwise.
\<close>

type_synonym url_parser = "string \<Rightarrow> string option"

text \<open>
  \<open>urlObj.pathname.split('?')[0].split('/').filter(Boolean)\<close>, shared by
  \<open>shouldInterceptUrl\<close> and both interceptors.
\<close>

definition path_segments :: "string \<Rightarrow> string list" where
  "path_segments pathname =
     (case split_on CHR ''?'' pathname of
        [] \<Rightarrow> []
      | p # _ \<Rightarrow> filter (\<lambda>s. s \<noteq> []) (split_on CHR ''/'' p))"

definition shouldInterceptUrl :: "url_parser \<Rightarrow> string \<Rightarrow> string list \<Rightarrow> js_error + bool" where
  "shouldInterceptUrl parseUrl url subscribedEndpoints =
     (case parseUrl url of
        None \<Rightarrow> Inr False
      | Some pathname \<Rightarrow>
          (let segments = path_segments pathname in
           if segments = [] then Inr False
           else Inr (last segments \<in> set subscribedEndpoints)))"

text \<open>\<open>segments.pop() || 'unknown'\<close>, the endpoint name used for logging and as the
  type of the intercepted request.\<close>

definition actionName_of :: "string \<Rightarrow> string" where
  "actionName_of pathname =
     (let segments = path_segments pathname in
      if segments = [] then ''unknown'' else last segments)"

record InterceptedRequest =
  ir_id :: string
  ir_url :: string
  ir_startTime :: string
  ir_type :: string
  ir_response :: string

section \<open>fetch-interceptor.ts: FetchInterceptor\<close>

text \<open>
  A \<open>Response\<close> of the page's own fetch. Reading its text can fail, which is the
  \<open>Inl\<close> of \<open>resp_body\<close>.
\<close>

record response =
  resp_ok :: bool
  resp_status :: nat
  resp_statusText :: string
  resp_headers :: "(string \<times> string) list"
  resp_body :: "js_error + string"

text \<open>
  What the overriding fetch hands to the page: the response object itself, the clone made
  for the page, or a \<open>new Response(finalResponse, {status, statusText, headers})\<close>.
\<close>

datatype page_response =
    Original response
  | CloneForPage response
  | Processed string nat string "(string \<times> string) list"

fun page_body :: "page_response \<Rightarrow> js_error + string" where
  "page_body (Original r) = resp_body r"
| "page_body (CloneForPage r) = resp_body r"
| "page_body (Processed b _ _ _) = Inr b"

record fetch_interceptor =
  fi_requestIdCounter :: nat
  fi_subscribedEndpoints :: "string list"

text \<open>
  The promise created at the end of the override, with its timer and its listener on
  \<open>CustomFeedReady\<close>. A promise keeps the first value it is resolved with;
  \<open>fw_resolve_calls\<close> counts every call of \<open>resolve\<close>.
\<close>

record fetch_wait =
  fw_requestId :: string
  fw_response :: response
  fw_timer :: bool
  fw_listener :: bool
  fw_promise :: "page_response option"
  fw_resolve_calls :: nat

datatype fetch_outcome = FetchResolved response | FetchRejected js_error

datatype fetch_return =
    DelegateToOriginal
  | ReturnResponse page_response
  | AwaitProcessed fetch_wait

definition is_true :: "js_error + bool \<Rightarrow> bool" where
  "is_true r = (case r of Inl _ \<Rightarrow> False | Inr b \<Rightarrow> b)"

text \<open>
  The body of the function assigned to \<open>window.fetch\<close>, up to the creation of the
  promise. \<open>outcome\<close> is what the original fetch does inside the \<open>try\<close>;
  \<open>now\<close> is \<open>new Date().toISOString()\<close>. The result is what is returned, the
  interceptor afterwards, and the \<open>SaveBatch\<close> events dispatched.
\<close>

definition overrideFetch ::
  "url_parser \<Rightarrow> string \<Rightarrow> fetch_interceptor \<Rightarrow> string \<Rightarrow> fetch_outcome
     \<Rightarrow> fetch_return \<times> fetch_interceptor \<times> InterceptedRequest list" where
  "overrideFetch parseUrl now self url outcome =
     (if \<not> is_true (shouldInterceptUrl parseUrl url (fi_subscribedEndpoints self))
      then (DelegateToOriginal, self, [])
      else
        (case outcome of
           FetchRejected e \<Rightarrow> (DelegateToOriginal, self, [])
         | FetchResolved response \<Rightarrow>
             if \<not> resp_ok response then (ReturnResponse (Original response), self, [])
             else
               (case parseUrl url of
                  None \<Rightarrow> (ReturnResponse (CloneForPage response), self, [])
                | Some pathname \<Rightarrow>
                    (case resp_body response of
                       Inl e \<Rightarrow> (ReturnResponse (CloneForPage response), self, [])
                     | Inr responseData \<Rightarrow>
                         (let actionName = actionName_of pathname;
                              requestId = string_of_nat (fi_requestIdCounter self);
                              self' = self\<lparr>fi_requestIdCounter := fi_requestIdCounter self + 1\<rparr>;
                              interceptedData =
                                \<lparr>ir_id = requestId, ir_url = url, ir_startTime = now,
                                 ir_type = actionName, ir_response = responseData\<rparr>
                          in (AwaitProcessed
                                \<lparr>fw_requestId = requestId, fw_response = response,
                                 fw_timer = True, fw_listener = True,
                                 fw_promise = None, fw_resolve_calls = 0\<rparr>,
                              self', [interceptedData]))))))"

text \<open>\<open>resolve(v)\<close> on the promise of the wait.\<close>

definition fw_resolve :: "page_response \<Rightarrow> fetch_wait \<Rightarrow> fetch_wait" where
  "fw_resolve v w =
     w\<lparr>fw_promise := (case fw_promise w of None \<Rightarrow> Some v | Some u \<Rightarrow> Some u),
       fw_resolve_calls := fw_resolve_calls w + 1\<rparr>"

text \<open>
  \<open>new Response(body, {status, statusText, headers})\<close> with a string as body: the
  constructor throws a RangeError for a status outside 200 to 599 and a TypeError for a
  status that allows no body. The status text and the headers are those of a response
  that exists, so the constructor accepts them.
\<close>

definition null_body_status :: "nat \<Rightarrow> bool" where
  "null_body_status status = (status \<in> {101, 103, 204, 205, 304})"

definition new_Response ::
  "string \<Rightarrow> nat \<Rightarrow> string \<Rightarrow> (string \<times> string) list \<Rightarrow> js_error + page_response" where
  "new_Response body status statusText headers =
     (if status < 200 \<or> 599 < status then Inl RangeError
      else if null_body_status status then Inl TypeError
      else Inr (Processed body status statusText headers))"

text \<open>
  What can happen while the promise waits: the timer of \<open>setTimeout\<close> fires, or a
  \<open>CustomFeedReady\<close> event with an id and a response is dispatched on the window.
  A timer that was cleared or has fired does not fire; a removed listener is not called.
  The listener clears the timer and removes itself before it builds the new response;
  when the constructor throws, the exception leaves the listener and \<open>resolve\<close> is
  not called.
\<close>

datatype wait_event = TimeoutFired | CustomFeedReady string string

fun wait_step :: "fetch_wait \<Rightarrow> wait_event \<Rightarrow> fetch_wait" where
  "wait_step w TimeoutFired =
     (if fw_timer w
      then fw_resolve (CloneForPage (fw_response w)) (w\<lparr>fw_timer := False, fw_listener := False\<rparr>)
      else w)"
| "wait_step w (CustomFeedReady i finalResponse) =
     (if fw_listener w \<and> i = fw_requestId w
      then
        (let w1 = w\<lparr>fw_timer := False, fw_listener := False\<rparr> in
         case new_Response finalResponse (resp_status (fw_response w))
                (resp_statusText (fw_response w)) (resp_headers (fw_response w)) of
           Inl e \<Rightarrow> w1
         | Inr r \<Rightarrow> fw_resolve r w1)
      else w)"

definition wait_run :: "fetch_wait \<Rightarrow> wait_event list \<Rightarrow> fetch_wait" where
  "wait_run w evs = foldl wait_step w evs"

definition carries_id :: "string \<Rightarrow> wait_event \<Rightarrow> bool" where
  "carries_id i ev = (case ev of TimeoutFired \<Rightarrow> False | CustomFeedReady j _ \<Rightarrow> j = i)"

text \<open>A successful feed response and the wait that the override creates for it, used
  as a concrete run.\<close>

definition fetch_example_response :: response where
  "fetch_example_response =
     \<lparr>resp_ok = True, resp_status = 200, resp_statusText = ''OK'',
      resp_headers = [(''content-type'', ''application/json'')],
      resp_body = Inr ''{\"kind\":\"Listing\"}''\<rparr>"

definition fetch_example_wait :: fetch_wait where
  "fetch_example_wait =
     \<lparr>fw_requestId = ''0'', fw_response = fetch_example_response,
      fw_timer = True, fw_listener = True, fw_promise = None, fw_resolve_calls = 0\<rparr>"

section \<open>xhr-interceptor.ts: XhrInterceptor\<close>

text \<open>
  One \<open>XMLHttpRequest\<close> of the page together with the interceptor that patched the
  prototype. \<open>x_page_callback\<close> tells whether the page assigned
  \<open>onreadystatechange\<close>; \<open>x_callback_calls\<close> records each invocation of that
  callback with the ready state and the response text it can read.
\<close>

record xhr_world =
  xi_requestIdCounter :: nat
  xi_subscribedEndpoints :: "string list"
  xi_eventHandlers :: "string \<rightharpoonup> bool"
  xi_dispatched :: "InterceptedRequest list"
  x_url :: "string option"
  x_id :: "string option"
  x_startTime :: "string option"
  x_page_callback :: bool
  x_intercepted :: bool
  x_originalCallback :: bool
  x_readyState :: nat
  x_responseText :: "js_error + string"
  x_overridden :: "string option"
  x_callback_calls :: "(nat \<times> (js_error + string)) list"

definition XHR_DONE :: nat where
  "XHR_DONE = 4"

text \<open>What a reader of \<open>xhr.responseText\<close> gets: the redefined property when there
  is one.\<close>

definition visible_responseText :: "xhr_world \<Rightarrow> js_error + string" where
  "visible_responseText x =
     (case x_overridden x of None \<Rightarrow> x_responseText x | Some r \<Rightarrow> Inr r)"

definition call_callback :: "xhr_world \<Rightarrow> xhr_world" where
  "call_callback x =
     x\<lparr>x_callback_calls := x_callback_calls x @ [(x_readyState x, visible_responseText x)]\<rparr>"

definition xhr_open :: "string \<Rightarrow> string \<Rightarrow> xhr_world \<Rightarrow> xhr_world" where
  "xhr_open now url x =
     x\<lparr>x_url := Some url,
       x_id := Some (string_of_nat (xi_requestIdCounter x)),
       xi_requestIdCounter := xi_requestIdCounter x + 1,
       x_startTime := Some now\<rparr>"

definition xhr_send :: "url_parser \<Rightarrow> xhr_world \<Rightarrow> xhr_world" where
  "xhr_send parseUrl x =
     (case x_url x of
        None \<Rightarrow> x
      | Some url \<Rightarrow>
          if url = [] \<or> \<not> is_true (shouldInterceptUrl parseUrl url (xi_subscribedEndpoints x))
          then x
          else x\<lparr>x_originalCallback := x_page_callback x, x_intercepted := True\<rparr>)"

text \<open>The function that \<open>send\<close> installs as \<open>onreadystatechange\<close>.\<close>

definition intercepted_onreadystatechange :: "url_parser \<Rightarrow> xhr_world \<Rightarrow> xhr_world" where
  "intercepted_onreadystatechange parseUrl x =
     (if x_readyState x \<noteq> XHR_DONE
      then (if x_originalCallback x then call_callback x else x)
      else
        (case x_responseText x of
           Inl e \<Rightarrow> (if x_originalCallback x then call_callback x else x)
         | Inr responseData \<Rightarrow>
             if responseData = []
             then (if x_originalCallback x then call_callback x else x)
             else
               (case parseUrl (case x_url x of None \<Rightarrow> [] | Some u \<Rightarrow> u) of
                  None \<Rightarrow> (if x_originalCallback x then call_callback x else x)
                | Some pathname \<Rightarrow>
                    (case (x_id x, x_url x, x_startTime x) of
                       (Some i, Some u, Some t) \<Rightarrow>
                         x\<lparr>xi_eventHandlers := (xi_eventHandlers x)(i \<mapsto> x_originalCallback x),
                           xi_dispatched := xi_dispatched x @
                             [\<lparr>ir_id = i, ir_url = u, ir_startTime = t,
                               ir_type = actionName_of pathname, ir_response = responseData\<rparr>]\<rparr>
                     | _ \<Rightarrow> (if x_originalCallback x then call_callback x else x)))))"

text \<open>The listener that \<open>setupResponseListener\<close> puts on \<open>CustomFeedReady\<close>.\<close>

definition xhr_onCustomFeedReady :: "string \<Rightarrow> string \<Rightarrow> xhr_world \<Rightarrow> xhr_world" where
  "xhr_onCustomFeedReady i finalResponse x =
     (case xi_eventHandlers x i of
        None \<Rightarrow> x
      | Some callback \<Rightarrow>
          (let x1 = x\<lparr>x_overridden := Some finalResponse\<rparr>;
               x2 = (if callback then call_callback x1 else x1)
           in x2\<lparr>xi_eventHandlers := (xi_eventHandlers x2)(i := None)\<rparr>))"

text \<open>
  What the browser and the content script do to the request after \<open>send\<close>: the
  ready state changes (with the response text then readable, or not), or a
  \<open>CustomFeedReady\<close> event is dispatched. There is no timer in this interceptor.
\<close>

datatype xhr_event = ReadyStateChange nat "js_error + string" | XhrFeedReady string string

fun xhr_step :: "url_parser \<Rightarrow> xhr_world \<Rightarrow> xhr_event \<Rightarrow> xhr_world" where
  "xhr_step parseUrl x (ReadyStateChange rs txt) =
     (let x1 = x\<lparr>x_readyState := rs, x_responseText := txt\<rparr> in
      if x_intercepted x1 then intercepted_onreadystatechange parseUrl x1
      else if x_page_callback x1 then call_callback x1 else x1)"
| "xhr_step parseUrl x (XhrFeedReady i r) = xhr_onCustomFeedReady i r x"

definition xhr_run :: "url_parser \<Rightarrow> xhr_world \<Rightarrow> xhr_event list \<Rightarrow> xhr_world" where
  "xhr_run parseUrl x evs = foldl (xhr_step parseUrl) x evs"

definition xhr_fresh :: "string list \<Rightarrow> xhr_world" where
  "xhr_fresh endpoints =
     \<lparr>xi_requestIdCounter = 0, xi_subscribedEndpoints = endpoints,
      xi_eventHandlers = Map.empty, xi_dispatched = [],
      x_url = None, x_id = None, x_startTime = None,
      x_page_callback = True, x_intercepted = False, x_originalCallback = False,
      x_readyState = 0, x_responseText = Inr [], x_overridden = None,
      x_callback_calls = []\<rparr>"

definition is_feed_ready_for :: "string \<Rightarrow> xhr_event \<Rightarrow> bool" where
  "is_feed_ready_for i ev =
     (case ev of ReadyStateChange _ _ \<Rightarrow> False | XhrFeedReady j _ \<Rightarrow> j = i)"

definition is_feed_ready :: "xhr_event \<Rightarrow> bool" where
  "is_feed_ready ev = (case ev of ReadyStateChange _ _ \<Rightarrow> False | XhrFeedReady _ _ \<Rightarrow> True)"

text \<open>The request of the failing run: opened on a subscribed endpoint and sent, the page
  having set its callback beforehand.\<close>

definition xhr_sent_example :: xhr_world where
  "xhr_sent_example =
     xhr_send (\<lambda>u. Some ''/svc/shreddit/feeds/home-feed'')
       (xhr_open ''2025-01-01T00:00:00.000Z'' ''https://www.reddit.com/svc/shreddit/feeds/home-feed''
          (xhr_fresh [''home-feed'']))"

section \<open>JSON values and the JavaScript operations on them\<close>

text \<open>
  The result of \<open>JSON.parse\<close>: an object is the list of its members in order. Numbers
  are modelled as integers; the code under study only tests them for truth, equality and
  difference. A JavaScript value is a \<open>json option\<close>, \<open>None\<close> being
  \<open>undefined\<close>.
\<close>

datatype json =
    JNull
  | JBool bool
  | JNum int
  | JStr string
  | JArr "json list"
  | JObj "(string \<times> json) list"

type_synonym jsval = "json option"

fun truthy :: "jsval \<Rightarrow> bool" where
  "truthy None = False"
| "truthy (Some JNull) = False"
| "truthy (Some (JBool b)) = b"
| "truthy (Some (JNum n)) = (n \<noteq> 0)"
| "truthy (Some (JStr s)) = (s \<noteq> [])"
| "truthy (Some (JArr xs)) = True"
| "truthy (Some (JObj kvs)) = True"

fun nullish :: "jsval \<Rightarrow> bool" where
  "nullish None = True"
| "nullish (Some JNull) = True"
| "nullish (Some v) = False"

text \<open>
  \<open>v.k\<close> on a value that is neither \<open>null\<close> nor \<open>undefined\<close>, for the
  member names the code uses (none of them is \<open>length\<close>, an index or a member of a
  built-in prototype): only an object has such a member.
\<close>

fun own_prop :: "json \<Rightarrow> string \<Rightarrow> jsval" where
  "own_prop (JObj kvs) k = map_of kvs k"
| "own_prop v k = None"

text \<open>\<open>v[i]\<close> for a number \<open>i\<close>, on a value that is neither \<open>null\<close> nor
  \<open>undefined\<close>.\<close>

fun own_index :: "json \<Rightarrow> nat \<Rightarrow> jsval" where
  "own_index (JArr xs) i = (if i < length xs then Some (xs ! i) else None)"
| "own_index (JObj kvs) i = map_of kvs (string_of_nat i)"
| "own_index (JStr s) i = (if i < length s then Some (JStr [s ! i]) else None)"
| "own_index v i = None"

text \<open>\<open>v.k\<close> and \<open>v[i]\<close> throw a TypeError on \<open>null\<close> and
  \<open>undefined\<close>; \<open>v?.k\<close> and \<open>v?.[i]\<close> yield \<open>undefined\<close> there.\<close>

definition getProp :: "jsval \<Rightarrow> string \<Rightarrow> js_error + jsval" where
  "getProp v k =
     (case v of None \<Rightarrow> Inl TypeError | Some JNull \<Rightarrow> Inl TypeError | Some j \<Rightarrow> Inr (own_prop j k))"

definition optProp :: "jsval \<Rightarrow> string \<Rightarrow> jsval" where
  "optProp v k =
     (case v of None \<Rightarrow> None | Some JNull \<Rightarrow> None | Some j \<Rightarrow> own_prop j k)"

definition getIndex :: "jsval \<Rightarrow> nat \<Rightarrow> js_error + jsval" where
  "getIndex v i =
     (case v of None \<Rightarrow> Inl TypeError | Some JNull \<Rightarrow> Inl TypeError | Some j \<Rightarrow> Inr (own_index j i))"

definition optIndex :: "jsval \<Rightarrow> nat \<Rightarrow> jsval" where
  "optIndex v i =
     (case v of None \<Rightarrow> None | Some JNull \<Rightarrow> None | Some j \<Rightarrow> own_index j i)"

definition isArray :: "jsval \<Rightarrow> bool" where
  "isArray v = (case v of Some (JArr xs) \<Rightarrow> True | _ \<Rightarrow> False)"

text \<open>Sequencing of computations that may throw.\<close>

definition and_then :: "js_error + 'a \<Rightarrow> ('a \<Rightarrow> js_error + 'b) \<Rightarrow> js_error + 'b" where
  "and_then m f = (case m of Inl e \<Rightarrow> Inl e | Inr a \<Rightarrow> f a)"

text \<open>
  Numbers are integers here. \<open>Number(s)\<close> is given for the empty text and for signed
  decimal integer text; every other text is taken as not a number (\<open>None\<close> stands for
  \<open>NaN\<close>), also the texts that JavaScript does read as numbers: with white space
  around, a fraction, an exponent, a radix prefix, or \<open>Infinity\<close>.
\<close>

definition string_of_int :: "int \<Rightarrow> string" where
  "string_of_int i = (if i < 0 then CHR ''-'' # string_of_nat (nat (- i)) else string_of_nat (nat i))"

definition digit_val :: "char \<Rightarrow> nat option" where
  "digit_val c = map_of (zip ''0123456789'' [0, 1, 2, 3, 4, 5, 6, 7, 8, 9]) c"

fun parse_digits :: "nat \<Rightarrow> string \<Rightarrow> nat option" where
  "parse_digits acc [] = Some acc"
| "parse_digits acc (c # cs) =
     (case digit_val c of None \<Rightarrow> None | Some d \<Rightarrow> parse_digits (10 * acc + d) cs)"

definition js_Number :: "string \<Rightarrow> int option" where
  "js_Number s =
     (case s of
        [] \<Rightarrow> Some 0
      | c # cs \<Rightarrow>
          if c = CHR ''-'' then (if cs = [] then None else map_option (\<lambda>n. - int n) (parse_digits 0 cs))
          else if c = CHR ''+'' then (if cs = [] then None else map_option int (parse_digits 0 cs))
          else map_option int (parse_digits 0 s))"

fun join_with :: "string \<Rightarrow> string list \<Rightarrow> string" where
  "join_with sep [] = []"
| "join_with sep [x] = x"
| "join_with sep (x # y # ys) = x @ sep @ join_with sep (y # ys)"

text \<open>\<open>String(v)\<close>, as a template literal, \<open>join\<close> and an assignment to
  \<open>src\<close> apply it.\<close>

fun js_String :: "json \<Rightarrow> string" where
  "js_String JNull = ''null''"
| "js_String (JBool b) = (if b then ''true'' else ''false'')"
| "js_String (JNum n) = string_of_int n"
| "js_String (JStr s) = s"
| "js_String (JArr xs) =
     join_with '','' (map (\<lambda>x. if x = JNull then [] else js_String x) xs)"
| "js_String (JObj kvs) = ''[object Object]''"

definition join_elem :: "jsval \<Rightarrow> string" where
  "join_elem v = (case v of None \<Rightarrow> [] | Some JNull \<Rightarrow> [] | Some j \<Rightarrow> js_String j)"

text \<open>\<open>Number(v)\<close>, the difference of two numbers and the text of a number. The
  difference is exact, as that of doubles is for integers below 2 to the power 53;
  beyond them a double rounds and the model does not.\<close>

definition toNumber :: "jsval \<Rightarrow> int option" where
  "toNumber v =
     (case v of
        None \<Rightarrow> None
      | Some JNull \<Rightarrow> Some 0
      | Some (JBool b) \<Rightarrow> Some (if b then 1 else 0)
      | Some (JNum n) \<Rightarrow> Some n
      | Some (JStr s) \<Rightarrow> js_Number s
      | Some (JArr xs) \<Rightarrow> js_Number (js_String (JArr xs))
      | Some (JObj kvs) \<Rightarrow> None)"

definition num_sub :: "int option \<Rightarrow> int option \<Rightarrow> int option" where
  "num_sub a b = (case (a, b) of (Some x, Some y) \<Rightarrow> Some (x - y) | _ \<Rightarrow> None)"

definition num_to_string :: "int option \<Rightarrow> string" where
  "num_to_string n = (case n of None \<Rightarrow> ''NaN'' | Some i \<Rightarrow> string_of_int i)"

section \<open>utils/markers: image interventions\<close>

text \<open>
  One \<open>img\<close> element and what the marker code can see of the document around it.
  \<open>img_parent\<close> is the parent node of the image: none, a node that is not a
  \<open>.diymod-image-container\<close>, or such a container; \<open>siblings\<close> are the other
  children of that container in document order. A length of a \<open>style\<close> is a number of
  pixels, \<open>None\<close> when the property is not set; an assignment of text that is not a
  length (\<open>NaNpx\<close>, \<open>undefinedpx\<close>, a negative width or height) leaves it unset.
  \<open>origin\<close> is where the layout puts the container in the viewport.
\<close>

datatype tag = IMG | DIV

record child =
  c_tag :: tag
  c_classes :: "string list"
  c_src :: string
  c_left :: "int option"
  c_top :: "int option"
  c_width :: "int option"
  c_height :: "int option"

datatype parent = Detached | PlainParent | Container

record img_dom =
  img_src :: string
  img_alt :: string
  img_attr :: "string option"
  img_processed :: "string option"
  img_classes :: "string list"
  img_parent :: parent
  siblings :: "child list"
  origin :: "int \<times> int"

definition DIY_IMG_ATTR :: string where
  "DIY_IMG_ATTR = ''diy-mod-image''"

definition CSS_PROCESSING :: string where
  "CSS_PROCESSING = ''diymod-processing''"

definition classList_add :: "string \<Rightarrow> string list \<Rightarrow> string list" where
  "classList_add c cs = (if c \<in> set cs then cs else cs @ [c])"

definition classList_remove :: "string \<Rightarrow> string list \<Rightarrow> string list" where
  "classList_remove c cs = filter (\<lambda>x. x \<noteq> c) cs"

text \<open>
  The wrapping step that \<open>applyOverlayToImage\<close>, \<open>applyBlurToImage\<close> and
  \<open>showImageLoadingState\<close> share: an image whose parent is not a container is moved
  into a new one, when it has a parent at all. An image without a parent is not moved:
  the new container and what is appended to it are not reachable from the image, so the
  functions below leave such an image as it is.
\<close>

definition ensure_container :: "img_dom \<Rightarrow> img_dom" where
  "ensure_container img =
     (case img_parent img of
        Container \<Rightarrow> img
      | PlainParent \<Rightarrow> img\<lparr>img_parent := Container, siblings := []\<rparr>
      | Detached \<Rightarrow> img)"

text \<open>\<open>const [left, top, width, height] = info.split('_').map(Number)\<close>: a missing
  element is \<open>undefined\<close>, which like \<open>NaN\<close> is no length.\<close>

definition info_numbers :: "string \<Rightarrow> int option list" where
  "info_numbers info = map js_Number (split_on CHR ''_'' info)"

definition num_at :: "int option list \<Rightarrow> nat \<Rightarrow> int option" where
  "num_at ns i = (if i < length ns then ns ! i else None)"

definition css_offset :: "int option \<Rightarrow> int option" where
  "css_offset n = n"

definition css_size :: "int option \<Rightarrow> int option" where
  "css_size n = (case n of None \<Rightarrow> None | Some i \<Rightarrow> if i < 0 then None else Some i)"

text \<open>\<open>el.style.left === `${left}px`\<close>\<close>

definition px_eq :: "int option \<Rightarrow> int option \<Rightarrow> bool" where
  "px_eq styled n = (case n of None \<Rightarrow> False | Some i \<Rightarrow> styled = Some i)"

definition applyOverlayToImage :: "img_dom \<Rightarrow> string \<Rightarrow> img_dom" where
  "applyOverlayToImage img overlayInfo =
     (let ns = info_numbers overlayInfo;
          left = num_at ns 0; top = num_at ns 1; width = num_at ns 2; height = num_at ns 3;
          img1 = ensure_container img
      in if img_parent img1 = Detached then img1
         else
           (case find (\<lambda>overlay. c_tag overlay = IMG \<and> px_eq (c_left overlay) left
                         \<and> px_eq (c_top overlay) top \<and> px_eq (c_width overlay) width
                         \<and> px_eq (c_height overlay) height) (siblings img1) of
              Some existingOverlay \<Rightarrow> img1
            | None \<Rightarrow>
                img1\<lparr>siblings := siblings img1 @
                  [\<lparr>c_tag = IMG, c_classes = [''diymod-overlay-image''],
                    c_src = ''https://tinypng.com/images/social/website.jpg'',
                    c_left = css_offset left, c_top = css_offset top,
                    c_width = css_size width, c_height = css_size height\<rparr>]\<rparr>))"

text \<open>
  \<open>getBoundingClientRect\<close> of an absolutely positioned child of the container: the
  layout places it at its offsets from the container, so its viewport position is the
  origin of the container plus \<open>left\<close> and \<open>top\<close>.
\<close>

definition px :: "int option \<Rightarrow> int" where
  "px n = (case n of None \<Rightarrow> 0 | Some i \<Rightarrow> i)"

definition rect_left :: "img_dom \<Rightarrow> child \<Rightarrow> int" where
  "rect_left img el = fst (origin img) + px (c_left el)"

definition rect_top :: "img_dom \<Rightarrow> child \<Rightarrow> int" where
  "rect_top img el = snd (origin img) + px (c_top el)"

definition rect_width :: "img_dom \<Rightarrow> child \<Rightarrow> int" where
  "rect_width img el = px (c_width el)"

definition rect_height :: "img_dom \<Rightarrow> child \<Rightarrow> int" where
  "rect_height img el = px (c_height el)"

text \<open>\<open>rect.left === left\<close>, the right-hand side being a number, \<open>NaN\<close> or
  \<open>undefined\<close>.\<close>

definition num_eq :: "int \<Rightarrow> int option \<Rightarrow> bool" where
  "num_eq r n = (case n of None \<Rightarrow> False | Some i \<Rightarrow> r = i)"

definition applyBlurToImage :: "img_dom \<Rightarrow> string \<Rightarrow> img_dom" where
  "applyBlurToImage img blurInfo =
     (let ns = info_numbers blurInfo;
          left = num_at ns 0; top = num_at ns 1; width = num_at ns 2; height = num_at ns 3;
          img1 = ensure_container img
      in if img_parent img1 = Detached then img1
         else
           (case find (\<lambda>el. ''diymod-blur-overlay'' \<in> set (c_classes el)
                         \<and> num_eq (rect_left img1 el) left \<and> num_eq (rect_top img1 el) top
                         \<and> num_eq (rect_width img1 el) width
                         \<and> num_eq (rect_height img1 el) height) (siblings img1) of
              Some existing \<Rightarrow> img1
            | None \<Rightarrow>
                img1\<lparr>siblings := siblings img1 @
                  [\<lparr>c_tag = DIV, c_classes = [''diymod-blur-overlay''], c_src = [],
                    c_left = css_offset left, c_top = css_offset top,
                    c_width = css_size width, c_height = css_size height\<rparr>]\<rparr>))"

text \<open>
  The text that \<open>processBlurImageMarkers\<close> and \<open>processOverlayImageMarker\<close> build
  from a box: \<open>[x1, y1, (Number(x2) - Number(x1)).toString(),
  (Number(y2) - Number(y1)).toString()].join('_')\<close>.
\<close>

definition box_info :: "json \<Rightarrow> string" where
  "box_info box =
     (let x1 = own_prop box ''x1''; y1 = own_prop box ''y1'';
          x2 = own_prop box ''x2''; y2 = own_prop box ''y2'';
          width = num_to_string (num_sub (toNumber x2) (toNumber x1));
          height = num_to_string (num_sub (toNumber y2) (toNumber y1))
      in join_with ''_'' [join_elem x1, join_elem y1, width, height])"

text \<open>The \<open>forEach\<close> over the boxes inside the \<open>try\<close>: destructuring a
  \<open>null\<close> box throws, which ends the loop and keeps what was applied so far. The flag
  tells whether the loop threw.\<close>

fun apply_boxes :: "(img_dom \<Rightarrow> string \<Rightarrow> img_dom) \<Rightarrow> img_dom \<Rightarrow> json list \<Rightarrow> img_dom \<times> bool" where
  "apply_boxes f img [] = (img, False)"
| "apply_boxes f img (box # boxes) =
     (if box = JNull then (img, True)
      else apply_boxes f (f img (box_info box)) boxes)"

definition processBlurImageMarkers :: "img_dom \<Rightarrow> jsval \<Rightarrow> img_dom" where
  "processBlurImageMarkers img config =
     (if \<not> truthy config then img
      else
        (case optProp config ''coordinates'' of
           Some (JArr boxes) \<Rightarrow>
             (case apply_boxes applyBlurToImage img boxes of
                (img1, True) \<Rightarrow> img1
              | (img1, False) \<Rightarrow>
                  img1\<lparr>img_classes := classList_add ''diymod-blur-processed'' (img_classes img1)\<rparr>)
         | _ \<Rightarrow> img))"

definition processOverlayImageMarker :: "img_dom \<Rightarrow> jsval \<Rightarrow> img_dom" where
  "processOverlayImageMarker img config =
     (if \<not> truthy config then img
      else
        (case optProp config ''coordinates'' of
           Some (JArr boxes) \<Rightarrow>
             (case apply_boxes applyOverlayToImage img boxes of
                (img1, True) \<Rightarrow> img1
              | (img1, False) \<Rightarrow>
                  img1\<lparr>img_classes := classList_add ''diymod-overlay-processed'' (img_classes img1)\<rparr>)
         | _ \<Rightarrow> img))"

definition processStandardImageMarker :: "img_dom \<Rightarrow> jsval \<Rightarrow> img_dom" where
  "processStandardImageMarker img config =
     (if \<not> truthy config then img
      else
        (case optProp config ''processed_image_url'' of
           None \<Rightarrow> img
         | Some url \<Rightarrow>
             if \<not> truthy (Some url) then img
             else
               (let img1 = img\<lparr>img_src := js_String url,
                               img_classes := classList_add ''diymod-processed-image'' (img_classes img)\<rparr>
                in case optProp config ''alt'' of
                     None \<Rightarrow> img1
                   | Some alt \<Rightarrow> if truthy (Some alt) then img1\<lparr>img_alt := js_String alt\<rparr> else img1)))"

definition loading_indicator :: child where
  "loading_indicator =
     \<lparr>c_tag = DIV, c_classes = [''diymod-loading-indicator''], c_src = [],
      c_left = Some 0, c_top = Some 0, c_width = None, c_height = None\<rparr>"

definition is_loading_indicator :: "child \<Rightarrow> bool" where
  "is_loading_indicator el = (''diymod-loading-indicator'' \<in> set (c_classes el))"

fun remove_first :: "('a \<Rightarrow> bool) \<Rightarrow> 'a list \<Rightarrow> 'a list" where
  "remove_first P [] = []"
| "remove_first P (x # xs) = (if P x then xs else x # remove_first P xs)"

definition showImageLoadingState :: "img_dom \<Rightarrow> img_dom" where
  "showImageLoadingState img =
     (let img1 = ensure_container img;
          img2 = img1\<lparr>img_classes := classList_add CSS_PROCESSING (img_classes img1)\<rparr>
      in if img_parent img2 = Detached then img2
         else img2\<lparr>siblings := siblings img2 @ [loading_indicator]\<rparr>)"

definition removeImageLoadingState :: "img_dom \<Rightarrow> img_dom" where
  "removeImageLoadingState img =
     (let img1 = img\<lparr>img_classes := classList_remove CSS_PROCESSING (img_classes img)\<rparr>
      in if img_parent img1 = Container
         then img1\<lparr>siblings := remove_first is_loading_indicator (siblings img1)\<rparr>
         else img1)"

subsection \<open>Deferred images and polling\<close>

text \<open>
  The key of a deferred image is built from the original URL and the JSON text of the
  polling filters; the pair of both stands for it. The id of a polling request is built
  from the key and \<open>Date.now()\<close>.
\<close>

type_synonym poll_key = "string \<times> json"
type_synonym request_id = "poll_key \<times> nat"

record DeferredImageProcessing =
  d_originalUrl :: string
  d_filters :: json
  d_config :: jsval
  d_pollCount :: nat
  d_maxPolls :: nat

record poll_request =
  pr_requestId :: request_id
  pr_imageUrl :: string
  pr_filters :: json

text \<open>
  The module state around the image: the \<open>deferredImages\<close> map, the message listeners
  of the polls in flight (each with its five-second timer), the timers set by
  \<open>scheduleNextPoll\<close>, and the polling requests posted so far.
\<close>

record marker_world =
  mw_img :: img_dom
  deferredImages :: "poll_key \<rightharpoonup> DeferredImageProcessing"
  listeners :: "request_id list"
  scheduled :: "poll_key list"
  posted :: "poll_request list"

definition DEFAULT_MAX_ATTEMPTS :: nat where
  "DEFAULT_MAX_ATTEMPTS = 20"

definition pollForImageResult :: "nat \<Rightarrow> poll_key \<Rightarrow> marker_world \<Rightarrow> marker_world" where
  "pollForImageResult now key w =
     (case deferredImages w key of
        None \<Rightarrow> w
      | Some deferredImage \<Rightarrow>
          if d_pollCount deferredImage \<ge> d_maxPolls deferredImage
          then w\<lparr>mw_img := removeImageLoadingState (mw_img w),
                 deferredImages := (deferredImages w)(key := None)\<rparr>
          else
            w\<lparr>deferredImages := (deferredImages w)
                   (key \<mapsto> deferredImage\<lparr>d_pollCount := d_pollCount deferredImage + 1\<rparr>),
              listeners := listeners w @ [(key, now)],
              posted := posted w @
                [\<lparr>pr_requestId = (key, now), pr_imageUrl = d_originalUrl deferredImage,
                  pr_filters = d_filters deferredImage\<rparr>]\<rparr>)"

definition scheduleNextPoll :: "poll_key \<Rightarrow> marker_world \<Rightarrow> marker_world" where
  "scheduleNextPoll key w = w\<lparr>scheduled := scheduled w @ [key]\<rparr>"

text \<open>\<open>config?.api?.polling?.maxAttempts || DEFAULT_MAX_ATTEMPTS\<close>; the configured
  value is a parameter.\<close>

definition maxPollAttempts :: "nat option \<Rightarrow> nat" where
  "maxPollAttempts maxAttempts =
     (case maxAttempts of
        None \<Rightarrow> DEFAULT_MAX_ATTEMPTS
      | Some n \<Rightarrow> if n = 0 then DEFAULT_MAX_ATTEMPTS else n)"

definition polling_filters :: "jsval \<Rightarrow> json \<Rightarrow> json" where
  "polling_filters imgConfig filters =
     (case optProp imgConfig ''best_filter_name'' of
        None \<Rightarrow> filters
      | Some b \<Rightarrow> if truthy (Some b) then JArr [b] else filters)"

definition startImagePolling ::
  "nat option \<Rightarrow> nat \<Rightarrow> string \<Rightarrow> json \<Rightarrow> jsval \<Rightarrow> marker_world \<Rightarrow> marker_world" where
  "startImagePolling maxAttempts now originalUrl filters imgConfig w =
     (let pollingFilters = polling_filters imgConfig filters;
          key = (originalUrl, pollingFilters);
          deferredImage =
            \<lparr>d_originalUrl = originalUrl, d_filters = pollingFilters, d_config = imgConfig,
             d_pollCount = 0, d_maxPolls = maxPollAttempts maxAttempts\<rparr>
      in pollForImageResult now key (w\<lparr>deferredImages := (deferredImages w)(key \<mapsto> deferredImage)\<rparr>))"

definition processCartoonishImageMarker ::
  "nat option \<Rightarrow> nat \<Rightarrow> jsval \<Rightarrow> marker_world \<Rightarrow> marker_world" where
  "processCartoonishImageMarker maxAttempts now config w =
     (if \<not> truthy config then w
      else if optProp config ''status'' = Some (JStr ''DEFERRED'')
      then
        (let w1 = w\<lparr>mw_img := showImageLoadingState (mw_img w)\<rparr>;
             originalUrl = img_src (mw_img w1);
             filters = (case optProp config ''filters'' of
                          None \<Rightarrow> JArr []
                        | Some f \<Rightarrow> if truthy (Some f) then f else JArr [])
         in startImagePolling maxAttempts now originalUrl (polling_filters config filters) config w1)
      else if optProp config ''status'' = Some (JStr ''COMPLETED'')
              \<and> truthy (optProp config ''processedUrl'')
      then
        (case optProp config ''processedUrl'' of
           None \<Rightarrow> w
         | Some u \<Rightarrow>
             w\<lparr>mw_img := removeImageLoadingState
                  ((mw_img w)\<lparr>img_src := js_String u,
                     img_classes := classList_add ''diymod-cartoonish-processed'' (img_classes (mw_img w))\<rparr>)\<rparr>)
      else w)"

text \<open>
  The message handler of one poll, called with the \<open>response\<close> member of a
  \<open>diymod_poll_image_response\<close> message that carries its request id. It clears its
  timer and removes itself first. Reading \<open>data.status\<close> of a missing result throws
  out of the handler, after which nothing more happens for this poll.
\<close>

definition messageHandler :: "request_id \<Rightarrow> jsval \<Rightarrow> marker_world \<Rightarrow> marker_world" where
  "messageHandler rid response w =
     (let key = fst rid;
          w1 = w\<lparr>listeners := remove1 rid (listeners w)\<rparr>
      in if \<not> truthy response \<or> \<not> truthy (optProp response ''success'')
         then scheduleNextPoll key w1
         else
           (let data = optProp response ''result'' in
            if nullish data then w1
            else if optProp data ''status'' = Some (JStr ''COMPLETED'')
                    \<and> truthy (optProp data ''processed_value'')
            then
              (case optProp data ''processed_value'' of
                 None \<Rightarrow> w1
               | Some v \<Rightarrow>
                   w1\<lparr>mw_img := removeImageLoadingState
                         ((mw_img w1)\<lparr>img_src := js_String v,
                            img_classes := classList_add ''diymod-cartoonish-processed''
                                             (img_classes (mw_img w1))\<rparr>),
                      deferredImages := (deferredImages w1)(key := None)\<rparr>)
            else scheduleNextPoll key w1))"

text \<open>
  What happens to the polls: a response message for a request id arrives (every listener
  of that id handles it), the five-second timer of a poll in flight fires, or a timer set
  by \<open>scheduleNextPoll\<close> fires at some time.
\<close>

datatype poll_event =
    PollResponse request_id jsval
  | PollTimeout request_id
  | NextPollTimer poll_key nat

fun poll_step :: "marker_world \<Rightarrow> poll_event \<Rightarrow> marker_world" where
  "poll_step w (PollResponse rid response) =
     fold (\<lambda>l. messageHandler l response) (filter (\<lambda>l. l = rid) (listeners w)) w"
| "poll_step w (PollTimeout rid) =
     (if rid \<in> set (listeners w)
      then scheduleNextPoll (fst rid) (w\<lparr>listeners := remove1 rid (listeners w)\<rparr>)
      else w)"
| "poll_step w (NextPollTimer key now) =
     (if key \<in> set (scheduled w)
      then pollForImageResult now key (w\<lparr>scheduled := remove1 key (scheduled w)\<rparr>)
      else w)"

definition poll_run :: "marker_world \<Rightarrow> poll_event list \<Rightarrow> marker_world" where
  "poll_run w evs = foldl poll_step w evs"

subsection \<open>processMarkedImage\<close>

text \<open>\<open>JSON.parse\<close> belongs to the runtime and is a parameter: \<open>None\<close> when it
  throws a SyntaxError.\<close>

type_synonym json_parser = "string \<Rightarrow> json option"

definition processMarkedImage ::
  "json_parser \<Rightarrow> nat option \<Rightarrow> nat \<Rightarrow> marker_world \<Rightarrow> marker_world" where
  "processMarkedImage parse maxAttempts now w =
     (case img_attr (mw_img w) of
        None \<Rightarrow> w
      | Some config \<Rightarrow>
          if config = [] then w
          else
            (case parse config of
               None \<Rightarrow> w
             | Some configData \<Rightarrow>
                 (case getProp (Some configData) ''type'' of
                    Inl e \<Rightarrow> w
                  | Inr ty \<Rightarrow>
                      (let w1 =
                         (if ty = Some (JStr ''overlay'')
                          then w\<lparr>mw_img := processOverlayImageMarker (mw_img w) (Some configData)\<rparr>
                          else if ty = Some (JStr ''blur'')
                          then w\<lparr>mw_img := processBlurImageMarkers (mw_img w) (Some configData)\<rparr>
                          else if ty = Some (JStr ''processed'')
                          then w\<lparr>mw_img := processStandardImageMarker (mw_img w) (Some configData)\<rparr>
                          else if ty = Some (JStr ''cartoonish'') \<or> ty = Some (JStr ''edit'')
                          then processCartoonishImageMarker maxAttempts now (Some configData) w
                          else w)
                       in if ty \<noteq> Some (JStr ''cartoonish'')
                             \<or> (ty = Some (JStr ''cartoonish'')
                                 \<and> optProp (Some configData) ''status'' \<noteq> Some (JStr ''DEFERRED''))
                          then w1\<lparr>mw_img := (mw_img w1)\<lparr>img_attr := None,
                                    img_processed := Some ''true''\<rparr>\<rparr>
                          else w1))))"

subsection \<open>Vocabulary of the properties and concrete runs\<close>

definition edit_deferred_config :: json where
  "edit_deferred_config = JObj [(''type'', JStr ''edit''), (''status'', JStr ''DEFERRED'')]"

definition marked_image :: img_dom where
  "marked_image =
     \<lparr>img_src = ''https://i.redd.it/a.jpg'', img_alt = [], img_attr = Some ''{\"type\":\"edit\",\"status\":\"DEFERRED\"}'',
      img_processed = None, img_classes = [], img_parent = PlainParent, siblings = [],
      origin = (100, 50)\<rparr>"

definition fresh_world :: "img_dom \<Rightarrow> marker_world" where
  "fresh_world img =
     \<lparr>mw_img = img, deferredImages = Map.empty, listeners = [], scheduled = [], posted = []\<rparr>"

text \<open>The blur overlays inside the container of an image.\<close>

definition blur_overlays :: "img_dom \<Rightarrow> child list" where
  "blur_overlays img = filter (\<lambda>el. ''diymod-blur-overlay'' \<in> set (c_classes el)) (siblings img)"




definition deferred_config :: json where
  "deferred_config =
     JObj [(''type'', JStr ''cartoonish''), (''status'', JStr ''DEFERRED''),
           (''filters'', JArr [JStr ''spiders''])]"

text \<open>The key under which \<open>processCartoonishImageMarker\<close> tracks an image.\<close>

definition deferred_key :: "img_dom \<Rightarrow> jsval \<Rightarrow> poll_key" where
  "deferred_key img config =
     (img_src img,
      polling_filters config
        (polling_filters config
           (case optProp config ''filters'' of
              None \<Rightarrow> JArr []
            | Some f \<Rightarrow> if truthy (Some f) then f else JArr [])))"


text \<open>The polls in flight for a key: the message listeners waiting for a response.\<close>

definition in_flight_polls :: "poll_key \<Rightarrow> marker_world \<Rightarrow> nat" where
  "in_flight_polls key w = length (filter (\<lambda>l. fst l = key) (listeners w))"

definition example_key :: poll_key where
  "example_key = (''https://i.redd.it/a.jpg'', JArr [JStr ''spiders''])"

text \<open>The loading indicators inside the container of an image.\<close>

definition loading_indicators :: "img_dom \<Rightarrow> nat" where
  "loading_indicators img = length (filter is_loading_indicator (siblings img))"

text \<open>
  A run in which the marker of one deferred image is processed twice, at the times 1000 and
  2000, with at most three attempts configured, and in which no poll is answered: the timer
  of each poll fires, and the timers set by \<open>scheduleNextPoll\<close> fire after it.
\<close>

definition first_call_world :: marker_world where
  "first_call_world =
     processCartoonishImageMarker (Some 3) 1000 (Some deferred_config) (fresh_world marked_image)"

definition second_call_world :: marker_world where
  "second_call_world =
     processCartoonishImageMarker (Some 3) 2000 (Some deferred_config) first_call_world"

definition second_call_outcome :: marker_world where
  "second_call_outcome =
     poll_run second_call_world
       [PollTimeout (example_key, 1000), PollTimeout (example_key, 2000),
        NextPollTimer example_key 9000, NextPollTimer example_key 10000,
        PollTimeout (example_key, 9000), PollTimeout (example_key, 10000),
        NextPollTimer example_key 17000, NextPollTimer example_key 18000]"

text \<open>The job, the requests and the image of that run, written out.\<close>

definition example_job :: "nat \<Rightarrow> DeferredImageProcessing" where
  "example_job n =
     \<lparr>d_originalUrl = ''https://i.redd.it/a.jpg'', d_filters = JArr [JStr ''spiders''],
      d_config = Some deferred_config, d_pollCount = n, d_maxPolls = 3\<rparr>"

definition example_request :: "nat \<Rightarrow> poll_request" where
  "example_request t =
     \<lparr>pr_requestId = (example_key, t), pr_imageUrl = ''https://i.redd.it/a.jpg'',
      pr_filters = JArr [JStr ''spiders'']\<rparr>"

definition shown_image :: "nat \<Rightarrow> img_dom" where
  "shown_image n =
     marked_image\<lparr>img_parent := Container, img_classes := [CSS_PROCESSING],
       siblings := replicate n loading_indicator\<rparr>"

section \<open>websocket-connector.ts: WebSocketConnector\<close>

text \<open>
  The connector with the promises it has handed out. A promise is named by a handle chosen
  by the caller's call; \<open>promises\<close> maps a handle to \<open>None\<close> while the promise is
  pending and to its settlement afterwards. \<open>settle_calls\<close> records every call of
  the \<open>resolve\<close> or \<open>reject\<close> of a handle, in order. A call for a promise that is
  already settled changes nothing else; \<open>settlements\<close> records the calls that took
  effect. \<open>pendingRequests\<close> is the \<open>Map\<close> of the connector in insertion order,
  each entry holding the \<open>resolve\<close> and \<open>reject\<close> of one handle.
\<close>

datatype ws_failure =
    NotConnected
  | RequestTimedOut
  | RequestExpired
  | ServerError jsval
  | ConnectionNotEstablished

datatype settlement = Fulfilled jsval | Rejected ws_failure

record PendingRequest =
  p_id :: string
  p_handle :: nat
  p_timestamp :: nat

record process_feed =
  pf_requestId :: string
  pf_url :: string
  pf_platform :: string
  pf_response :: string
  pf_startTime :: string
  pf_userId :: string

record ws_connector =
  pendingRequests :: "(string \<times> PendingRequest) list"
  isConnected :: bool
  ws_open :: bool
  ws_userId :: string
  ws_sent :: "process_feed list"
  promises :: "nat \<rightharpoonup> settlement option"
  settle_calls :: "(nat \<times> settlement) list"
  settlements :: "(nat \<times> settlement) list"

definition settle :: "nat \<Rightarrow> settlement \<Rightarrow> ws_connector \<Rightarrow> ws_connector" where
  "settle h s w =
     (let w1 = w\<lparr>settle_calls := settle_calls w @ [(h, s)]\<rparr>
      in case promises w1 h of
           Some None \<Rightarrow>
             w1\<lparr>promises := (promises w1)(h \<mapsto> Some s), settlements := settlements w1 @ [(h, s)]\<rparr>
         | _ \<Rightarrow> w1)"

definition sendMessage :: "process_feed \<Rightarrow> ws_connector \<Rightarrow> ws_connector" where
  "sendMessage message w = (if ws_open w then w\<lparr>ws_sent := ws_sent w @ [message]\<rparr> else w)"

text \<open>
  The executor of the promise that \<open>processRequest\<close> returns, for the handle \<open>h\<close>,
  the generated request id and \<open>Date.now()\<close>. The timer it sets is the event
  \<open>RequestTimeout\<close> below.
\<close>

definition processRequest ::
  "nat \<Rightarrow> string \<Rightarrow> nat \<Rightarrow> InterceptedRequest \<Rightarrow> string \<Rightarrow> ws_connector \<Rightarrow> ws_connector" where
  "processRequest h requestId now data platform w =
     (let w1 = w\<lparr>promises := (promises w)(h \<mapsto> None),
                 pendingRequests := AList.update requestId
                    \<lparr>p_id = requestId, p_handle = h, p_timestamp = now\<rparr> (pendingRequests w)\<rparr>;
          message = \<lparr>pf_requestId = requestId, pf_url = ir_url data, pf_platform = platform,
                     pf_response = ir_response data, pf_startTime = ir_startTime data,
                     pf_userId = ws_userId w\<rparr>
      in if isConnected w1 then sendMessage message w1
         else settle h (Rejected NotConnected) w1)"

text \<open>\<open>processRequest\<close> when awaiting the connection promise throws: the promise of
  the call is rejected and no entry is made.\<close>

definition processRequest_no_connection :: "nat \<Rightarrow> ws_connector \<Rightarrow> ws_connector" where
  "processRequest_no_connection h w =
     settle h (Rejected ConnectionNotEstablished) (w\<lparr>promises := (promises w)(h \<mapsto> None)\<rparr>)"

text \<open>\<open>this.pendingRequests.get(v)\<close> for a JavaScript value: the keys are strings.\<close>

definition pending_get :: "ws_connector \<Rightarrow> jsval \<Rightarrow> PendingRequest option" where
  "pending_get w v = (case v of Some (JStr k) \<Rightarrow> map_of (pendingRequests w) k | _ \<Rightarrow> None)"

definition pending_delete :: "jsval \<Rightarrow> ws_connector \<Rightarrow> ws_connector" where
  "pending_delete v w =
     (case v of
        Some (JStr k) \<Rightarrow> w\<lparr>pendingRequests := AList.delete k (pendingRequests w)\<rparr>
      | _ \<Rightarrow> w)"

definition handle_response :: "json \<Rightarrow> jsval \<Rightarrow> ws_connector \<Rightarrow> ws_connector" where
  "handle_response message ty w =
     (if ty = Some (JStr ''processing_response'') \<and> truthy (own_prop message ''requestId'')
      then (case pending_get w (own_prop message ''requestId'') of
              Some pendingRequest \<Rightarrow>
                pending_delete (own_prop message ''requestId'')
                  (settle (p_handle pendingRequest) (Fulfilled (own_prop message ''data'')) w)
            | None \<Rightarrow> w)
      else w)"

definition handle_error :: "json \<Rightarrow> jsval \<Rightarrow> ws_connector \<Rightarrow> ws_connector" where
  "handle_error message ty w =
     (if ty = Some (JStr ''error'') \<and> truthy (own_prop message ''requestId'')
      then (case pending_get w (own_prop message ''requestId'') of
              Some pendingRequest \<Rightarrow>
                pending_delete (own_prop message ''requestId'')
                  (settle (p_handle pendingRequest) (Rejected (ServerError (own_prop message ''error''))) w)
            | None \<Rightarrow> w)
      else w)"

definition handleMessage :: "json_parser \<Rightarrow> string \<Rightarrow> ws_connector \<Rightarrow> ws_connector" where
  "handleMessage parse data w =
     (case parse data of
        None \<Rightarrow> w
      | Some message \<Rightarrow>
          (case getProp (Some message) ''type'' of
             Inl e \<Rightarrow> w
           | Inr ty \<Rightarrow> handle_error message ty (handle_response message ty w)))"

text \<open>The callback of the timer that \<open>processRequest\<close> sets for the handle and the
  request id.\<close>

definition request_timeout :: "nat \<Rightarrow> string \<Rightarrow> ws_connector \<Rightarrow> ws_connector" where
  "request_timeout h requestId w =
     (if map_of (pendingRequests w) requestId \<noteq> None
      then settle h (Rejected RequestTimedOut)
             (w\<lparr>pendingRequests := AList.delete requestId (pendingRequests w)\<rparr>)
      else w)"

fun expire_entries :: "nat \<Rightarrow> nat \<Rightarrow> (string \<times> PendingRequest) list \<Rightarrow> ws_connector \<Rightarrow> ws_connector" where
  "expire_entries now timeout [] w = w"
| "expire_entries now timeout ((requestId, request) # es) w =
     expire_entries now timeout es
       (if now - p_timestamp request > timeout
        then (settle (p_handle request) (Rejected RequestExpired) w)
               \<lparr>pendingRequests := AList.delete requestId (pendingRequests w)\<rparr>
        else w)"

definition cleanupExpiredRequests :: "nat \<Rightarrow> nat \<Rightarrow> ws_connector \<Rightarrow> ws_connector" where
  "cleanupExpiredRequests now timeout w = expire_entries now timeout (pendingRequests w) w"

text \<open>
  What happens to the connector: a call of \<open>processRequest\<close> reaches its executor or
  fails to connect, a message arrives on the socket, the timer of a request fires, the
  periodic cleanup runs, the socket opens or closes.
\<close>

datatype ws_event =
    Submit nat string nat InterceptedRequest string
  | ConnectFailed nat
  | Incoming string
  | RequestTimeout nat string
  | Cleanup nat
  | SocketOpened
  | SocketClosed

fun ws_step :: "json_parser \<Rightarrow> nat \<Rightarrow> ws_connector \<Rightarrow> ws_event \<Rightarrow> ws_connector" where
  "ws_step parse timeout w (Submit h requestId now data platform) =
     processRequest h requestId now data platform w"
| "ws_step parse timeout w (ConnectFailed h) = processRequest_no_connection h w"
| "ws_step parse timeout w (Incoming data) = handleMessage parse data w"
| "ws_step parse timeout w (RequestTimeout h requestId) = request_timeout h requestId w"
| "ws_step parse timeout w (Cleanup now) = cleanupExpiredRequests now timeout w"
| "ws_step parse timeout w SocketOpened = w\<lparr>isConnected := True, ws_open := True\<rparr>"
| "ws_step parse timeout w SocketClosed = w\<lparr>isConnected := False, ws_open := False\<rparr>"

definition ws_run :: "json_parser \<Rightarrow> nat \<Rightarrow> ws_connector \<Rightarrow> ws_event list \<Rightarrow> ws_connector" where
  "ws_run parse timeout w evs = foldl (ws_step parse timeout) w evs"

definition ws_initial :: "string \<Rightarrow> ws_connector" where
  "ws_initial userId =
     \<lparr>pendingRequests = [], isConnected = False, ws_open = False, ws_userId = userId,
      ws_sent = [], promises = Map.empty, settle_calls = [], settlements = []\<rparr>"

text \<open>How often \<open>resolve\<close> or \<open>reject\<close> of a handle was called, and how often the
  promise of the handle was settled by such a call.\<close>

definition call_count :: "nat \<Rightarrow> ws_connector \<Rightarrow> nat" where
  "call_count h w = length (filter (\<lambda>s. fst s = h) (settle_calls w))"

definition settle_count :: "nat \<Rightarrow> ws_connector \<Rightarrow> nat" where
  "settle_count h w = length (filter (\<lambda>s. fst s = h) (settlements w))"

text \<open>
  An event that does not interfere with the request of handle \<open>h\<close> and id \<open>rid\<close>:
  it is not another call with the same handle or the same generated id, and a timer of the
  id \<open>rid\<close> is the timer of \<open>h\<close>.
\<close>

definition foreign_to :: "nat \<Rightarrow> string \<Rightarrow> ws_event \<Rightarrow> bool" where
  "foreign_to h rid ev =
     (case ev of
        Submit h' rid' now data platform \<Rightarrow> h' \<noteq> h \<and> rid' \<noteq> rid
      | ConnectFailed h' \<Rightarrow> h' \<noteq> h
      | RequestTimeout h' rid' \<Rightarrow> (rid' = rid) = (h' = h)
      | _ \<Rightarrow> True)"

text \<open>
  The three stages of a request of handle \<open>h\<close> and id \<open>rid\<close>: before its
  executor ran there is no promise, no entry and no settlement; while it is outstanding the
  promise is pending with the entry of \<open>rid\<close> holding its handle, or it is settled
  and was settled once; after its timer it is settled and was settled once.
\<close>

definition inv_before :: "nat \<Rightarrow> string \<Rightarrow> ws_connector \<Rightarrow> bool" where
  "inv_before h rid w =
     (promises w h = None \<and> rid \<notin> fst ` set (pendingRequests w) \<and> settle_count h w = 0)"

definition inv_during :: "nat \<Rightarrow> string \<Rightarrow> ws_connector \<Rightarrow> bool" where
  "inv_during h rid w =
     (promises w h \<noteq> None
      \<and> settle_count h w = (if promises w h = Some None then 0 else 1)
      \<and> (promises w h = Some None \<longrightarrow>
            rid \<in> fst ` set (pendingRequests w)
            \<and> (\<forall>(k, e) \<in> set (pendingRequests w). k = rid \<longrightarrow> p_handle e = h)))"

definition inv_after :: "nat \<Rightarrow> ws_connector \<Rightarrow> bool" where
  "inv_after h w = (promises w h \<noteq> None \<and> promises w h \<noteq> Some None \<and> settle_count h w = 1)"

text \<open>
  The same three stages for the entry of the request and the calls of its \<open>resolve\<close>
  and \<open>reject\<close>. The keys of the map are distinct. Before the executor ran no entry
  holds the handle and nothing was called. While the request is outstanding the entry of
  \<open>rid\<close>, and no other, holds the handle; \<open>c\<close> calls were made while the entry is in
  the map, and one more once it is deleted. After the timer the entry is gone.
\<close>

definition calls_before :: "nat \<Rightarrow> string \<Rightarrow> ws_connector \<Rightarrow> bool" where
  "calls_before h rid w =
     (distinct (map fst (pendingRequests w))
      \<and> rid \<notin> fst ` set (pendingRequests w)
      \<and> (\<forall>(k, e) \<in> set (pendingRequests w). p_handle e \<noteq> h)
      \<and> call_count h w = 0)"

definition calls_during :: "nat \<Rightarrow> nat \<Rightarrow> string \<Rightarrow> ws_connector \<Rightarrow> bool" where
  "calls_during c h rid w =
     (distinct (map fst (pendingRequests w))
      \<and> (\<forall>(k, e) \<in> set (pendingRequests w). (k = rid) = (p_handle e = h))
      \<and> call_count h w = (if rid \<in> fst ` set (pendingRequests w) then c else c + 1))"

definition calls_after :: "nat \<Rightarrow> nat \<Rightarrow> string \<Rightarrow> ws_connector \<Rightarrow> bool" where
  "calls_after c h rid w =
     (calls_during c h rid w \<and> rid \<notin> fst ` set (pendingRequests w))"

text \<open>A request of the page, for concrete runs.\<close>

definition ws_example_data :: InterceptedRequest where
  "ws_example_data =
     \<lparr>ir_id = ''0'', ir_url = ''https://www.reddit.com/svc/shreddit/feeds/home-feed'',
      ir_startTime = ''2025-01-01T00:00:00.000Z'', ir_type = ''home-feed'',
      ir_response = ''{}''\<rparr>"
section \<open>utils/markers: text markers\<close>

definition BLUR_START :: string where "BLUR_START = ''__BLUR_START__''"
definition BLUR_END :: string where "BLUR_END = ''__BLUR_END__''"
definition OVERLAY_START :: string where "OVERLAY_START = ''__OVERLAY_START__''"
definition OVERLAY_END :: string where "OVERLAY_END = ''__OVERLAY_END__''"
definition REWRITE_START :: string where "REWRITE_START = ''__REWRITE_START__''"
definition REWRITE_END :: string where "REWRITE_END = ''__REWRITE_END__''"

text \<open>The text after a prefix, when the text starts with it.\<close>

fun after_prefix :: "string \<Rightarrow> string \<Rightarrow> string option" where
  "after_prefix [] s = Some s"
| "after_prefix (p # ps) [] = None"
| "after_prefix (p # ps) (c # cs) = (if c = p then after_prefix ps cs else None)"

text \<open>The text before and after the first occurrence of a marker.\<close>

fun split_at_first :: "string \<Rightarrow> string \<Rightarrow> (string \<times> string) option" where
  "split_at_first marker [] = (if marker = [] then Some ([], []) else None)"
| "split_at_first marker (c # cs) =
     (case after_prefix marker (c # cs) of
        Some rest \<Rightarrow> Some ([], rest)
      | None \<Rightarrow>
          (case split_at_first marker cs of
             None \<Rightarrow> None
           | Some (before, rest) \<Rightarrow> Some (c # before, rest)))"

definition js_includes :: "string \<Rightarrow> string \<Rightarrow> bool" where
  "js_includes text marker = (split_at_first marker text \<noteq> None)"

lemma after_prefix_length: "after_prefix p s = Some r \<Longrightarrow> length r + length p = length s"
  by (induction p s rule: after_prefix.induct) (auto split: if_splits)

lemma split_at_first_length:
  "split_at_first m s = Some (b, r) \<Longrightarrow> length b + length m + length r = length s"
proof (induction s arbitrary: b r)
  case Nil
  then show ?case by (auto split: if_splits)
next
  case (Cons c cs)
  then show ?case
    by (auto split: option.splits dest: after_prefix_length)
qed

text \<open>
  \<open>text.replace(new RegExp(`${START}([\\s\\S]*?)${END}`, 'g'), ...)\<close>: from left to
  right, each start marker that has an end marker after it is replaced, with the shortest
  content, by what \<open>wrap\<close> makes of the content; the search goes on after the end
  marker. With no end marker left nothing more matches.
\<close>

function replace_regions :: "string \<Rightarrow> string \<Rightarrow> (string \<Rightarrow> string) \<Rightarrow> string \<Rightarrow> string" where
  "replace_regions start end wrap text =
     (if start = [] then text
      else
        (case split_at_first start text of
           None \<Rightarrow> text
         | Some (before, rest) \<Rightarrow>
             (case split_at_first end rest of
                None \<Rightarrow> text
              | Some (content, rest') \<Rightarrow>
                  before @ wrap content @ replace_regions start end wrap rest')))"
  by pat_completeness auto
termination
  by (relation "measure (\<lambda>(start, end, wrap, text). length text)")
     (auto dest!: split_at_first_length simp flip: length_greater_0_conv)

definition processBlurMarkers :: "string \<Rightarrow> string" where
  "processBlurMarkers text =
     (if \<not> js_includes text BLUR_START then text
      else replace_regions BLUR_START BLUR_END
             (\<lambda>content. ''<span class=\"diymod-blur\">'' @ content @ ''</span>'') text)"

definition processRewriteMarkers :: "string \<Rightarrow> string" where
  "processRewriteMarkers text =
     (if \<not> js_includes text REWRITE_START then text
      else replace_regions REWRITE_START REWRITE_END
             (\<lambda>content. ''<div class=\"diymod-rewritten\">'' @ [CHR 0x0A] @ ''      '' @ content
                @ [CHR 0x0A] @ ''      <div class=\"modification-indicator\">Modified by DIY-MOD</div>''
                @ [CHR 0x0A] @ ''    </div>'') text)"

text \<open>
  The overlay pattern \<open>START(.*?)\\|([\\s\\S]*?)END\<close>: after a start marker the warning
  runs to the first bar, with no line break before it, and the content to the first end
  marker after that bar. A start marker where this fails is left as text and the search
  goes on one character later.
\<close>

definition is_line_break :: "char \<Rightarrow> bool" where
  "is_line_break c = (c = CHR 0x0A \<or> c = CHR 0x0D)"

fun split_at_bar :: "string \<Rightarrow> (string \<times> string) option" where
  "split_at_bar [] = None"
| "split_at_bar (c # cs) =
     (if c = CHR ''|'' then Some ([], cs)
      else if is_line_break c then None
      else (case split_at_bar cs of None \<Rightarrow> None | Some (w, rest) \<Rightarrow> Some (c # w, rest)))"

definition overlay_match :: "string \<Rightarrow> (string \<times> string \<times> string) option" where
  "overlay_match rest =
     (case split_at_bar rest of
        None \<Rightarrow> None
      | Some (warning, after) \<Rightarrow>
          (case split_at_first OVERLAY_END after of
             None \<Rightarrow> None
           | Some (content, rest') \<Rightarrow> Some (warning, content, rest')))"

text \<open>\<open>String.prototype.trim\<close> on text whose white space is ASCII: space, tab, line
  feed, vertical tab, form feed and carriage return. The white space and line
  terminators of JavaScript outside ASCII are not told apart from other characters.\<close>

definition is_space :: "char \<Rightarrow> bool" where
  "is_space c = (c = CHR '' '' \<or> c = CHR 0x09 \<or> c = CHR 0x0A \<or> c = CHR 0x0B \<or> c = CHR 0x0C \<or> c = CHR 0x0D)"

definition trim :: "string \<Rightarrow> string" where
  "trim s = rev (dropWhile is_space (rev (dropWhile is_space s)))"

definition overlay_html :: "string \<Rightarrow> string \<Rightarrow> string" where
  "overlay_html warning content =
     (let warningText = (if trim warning = [] then ''Content filtered'' else trim warning) in
      ''<div class=\"content-overlay diymod-overlay hidden\" data-warning=\"'' @ warningText
      @ ''\" onclick=\"this.classList.toggle('' @ [CHR 0x27] @ ''hidden'' @ [CHR 0x27] @ '')\">''
      @ [CHR 0x0A] @ ''      <div class=\"content\">'' @ content @ ''</div>''
      @ [CHR 0x0A] @ ''      <div class=\"warning\">'' @ warningText @ ''</div>''
      @ [CHR 0x0A] @ ''    </div>'')"

lemma split_at_bar_length: "split_at_bar s = Some (w, r) \<Longrightarrow> length r < length s"
  by (induction s arbitrary: w r) (auto split: if_splits option.splits)

function replace_overlays :: "string \<Rightarrow> string" where
  "replace_overlays text =
     (case split_at_first OVERLAY_START text of
        None \<Rightarrow> text
      | Some (before, rest) \<Rightarrow>
          (case overlay_match rest of
             Some (warning, content, rest') \<Rightarrow>
               before @ overlay_html warning content @ replace_overlays rest'
           | None \<Rightarrow>
               before @ take 1 OVERLAY_START @ replace_overlays (drop 1 OVERLAY_START @ rest)))"
  by pat_completeness auto
termination
  by (relation "measure length")
     (auto simp: overlay_match_def OVERLAY_START_def split: option.splits
        dest!: split_at_first_length split_at_bar_length)

definition processOverlayMarkers :: "string \<Rightarrow> string" where
  "processOverlayMarkers text =
     (if \<not> js_includes text OVERLAY_START then text else replace_overlays text)"

text \<open>
  The registry \<open>markerHandlers\<close> is module state that \<open>registerMarkerHandler\<close>
  extends; \<open>hasAnyMarkers\<close> and \<open>processMarkedText\<close> take it as an argument.
  \<open>builtin_handlers\<close> is the registry after the module has registered its three
  handlers.
\<close>

record MarkerHandler =
  mh_name :: string
  mh_startMarker :: string
  mh_endMarker :: string
  mh_detect :: "string \<Rightarrow> bool"
  mh_process :: "string \<Rightarrow> string"

definition registerMarkerHandler :: "MarkerHandler \<Rightarrow> MarkerHandler list \<Rightarrow> MarkerHandler list" where
  "registerMarkerHandler handler markerHandlers = markerHandlers @ [handler]"

definition builtin_handlers :: "MarkerHandler list" where
  "builtin_handlers =
     registerMarkerHandler
       \<lparr>mh_name = ''rewrite'', mh_startMarker = REWRITE_START, mh_endMarker = REWRITE_END,
        mh_detect = (\<lambda>text. js_includes text REWRITE_START), mh_process = processRewriteMarkers\<rparr>
       (registerMarkerHandler
          \<lparr>mh_name = ''overlay'', mh_startMarker = OVERLAY_START, mh_endMarker = OVERLAY_END,
           mh_detect = (\<lambda>text. js_includes text OVERLAY_START), mh_process = processOverlayMarkers\<rparr>
          (registerMarkerHandler
             \<lparr>mh_name = ''blur'', mh_startMarker = BLUR_START, mh_endMarker = BLUR_END,
              mh_detect = (\<lambda>text. js_includes text BLUR_START), mh_process = processBlurMarkers\<rparr>
             []))"

definition hasAnyMarkers :: "MarkerHandler list \<Rightarrow> string \<Rightarrow> bool" where
  "hasAnyMarkers markerHandlers text =
     (if text = [] then False else list_ex (\<lambda>handler. mh_detect handler text) markerHandlers)"

definition processMarkedText :: "MarkerHandler list \<Rightarrow> string \<Rightarrow> string" where
  "processMarkedText markerHandlers text =
     (if text = [] then []
      else if \<not> hasAnyMarkers markerHandlers text then text
      else fold (\<lambda>handler result.
                   if mh_detect handler result then mh_process handler result else result)
             markerHandlers text)"

section \<open>Reddit adapter\<close>

record Post =
  post_id :: jsval
  post_title :: jsval
  post_body :: jsval
  post_mediaUrls :: "json list"
  post_platform :: string
  post_metadata :: "(string \<times> jsval) list"

record ProcessedPost =
  pp_id :: string
  processedTitle :: "string option"
  processedBody :: "string option"
  processedMediaUrls :: "string list option"

text \<open>\<open>a || b\<close>\<close>

definition js_or :: "jsval \<Rightarrow> jsval \<Rightarrow> jsval" where
  "js_or a b = (if truthy a then a else b)"

fun traverse :: "('a \<Rightarrow> js_error + 'b) \<Rightarrow> 'a list \<Rightarrow> js_error + 'b list" where
  "traverse f [] = Inr []"
| "traverse f (x # xs) =
     (case f x of
        Inl e \<Rightarrow> Inl e
      | Inr y \<Rightarrow> (case traverse f xs of Inl e \<Rightarrow> Inl e | Inr ys \<Rightarrow> Inr (y # ys)))"

subsection \<open>isImageUrl\<close>

text \<open>
  The test of \<open>/\.(jpg|jpeg|png|gif|webp)(\?.*)?$/i\<close>: somewhere a dot, one of the
  extensions in any case, and then the end of the text or a question mark followed by
  characters that are no line breaks up to the end.
\<close>

definition lower_char :: "char \<Rightarrow> char" where
  "lower_char c =
     (let n = (of_char c :: nat) in if 65 \<le> n \<and> n \<le> 90 then char_of (n + 32) else c)"

fun starts_with :: "string \<Rightarrow> string \<Rightarrow> string option" where
  "starts_with [] s = Some s"
| "starts_with (p # ps) [] = None"
| "starts_with (p # ps) (c # cs) = (if lower_char c = p then starts_with ps cs else None)"

definition query_or_end :: "string \<Rightarrow> bool" where
  "query_or_end rest =
     (case rest of
        [] \<Rightarrow> True
      | c # q \<Rightarrow> c = CHR ''?'' \<and> list_all (\<lambda>x. x \<noteq> CHR 0x0A \<and> x \<noteq> CHR 0x0D) q)"

definition extension_here :: "string \<Rightarrow> bool" where
  "extension_here s =
     list_ex (\<lambda>ext. case starts_with ext s of None \<Rightarrow> False | Some rest \<Rightarrow> query_or_end rest)
       [''.jpg'', ''.jpeg'', ''.png'', ''.gif'', ''.webp'']"

fun isImageUrl :: "string \<Rightarrow> bool" where
  "isImageUrl [] = False"
| "isImageUrl (c # cs) = (extension_here (c # cs) \<or> isImageUrl cs)"

subsection \<open>extractPosts\<close>

text \<open>The \<open>forEach\<close> over \<open>post.preview.images\<close>: an image that is
  \<open>null\<close> throws.\<close>

fun preview_urls :: "json list \<Rightarrow> js_error + json list" where
  "preview_urls [] = Inr []"
| "preview_urls (im # ims) =
     (if im = JNull then Inl TypeError
      else
        (case preview_urls ims of
           Inl e \<Rightarrow> Inl e
         | Inr urls \<Rightarrow>
             (case optProp (own_prop im ''source'') ''url'' of
                None \<Rightarrow> Inr urls
              | Some u \<Rightarrow> if truthy (Some u) then Inr (u # urls) else Inr urls)))"

text \<open>\<open>Object.values\<close> of a value that is not \<open>null\<close>.\<close>

fun object_values :: "json \<Rightarrow> json list" where
  "object_values (JObj kvs) = map snd kvs"
| "object_values (JArr xs) = xs"
| "object_values (JStr s) = map (\<lambda>c. JStr [c]) s"
| "object_values v = []"

fun gallery_urls :: "json list \<Rightarrow> js_error + json list" where
  "gallery_urls [] = Inr []"
| "gallery_urls (media # medias) =
     (if media = JNull then Inl TypeError
      else
        (case gallery_urls medias of
           Inl e \<Rightarrow> Inl e
         | Inr urls \<Rightarrow>
             (case optProp (own_prop media ''s'') ''u'' of
                None \<Rightarrow> Inr urls
              | Some u \<Rightarrow> if truthy (Some u) then Inr (u # urls) else Inr urls)))"

definition extractMediaUrls :: "jsval \<Rightarrow> js_error + json list" where
  "extractMediaUrls post =
     and_then (getProp post ''preview'') (\<lambda>preview.
     and_then
       (if truthy (optProp preview ''images'')
        then (case optProp preview ''images'' of
                Some (JArr images) \<Rightarrow> preview_urls images
              | _ \<Rightarrow> Inl TypeError)
        else Inr []) (\<lambda>urls1.
     and_then
       (case optProp post ''media_metadata'' of
          None \<Rightarrow> Inr []
        | Some mm \<Rightarrow> if truthy (Some mm) then gallery_urls (object_values mm) else Inr []) (\<lambda>urls2.
     Inr (urls1 @ urls2 @
          (case optProp post ''url'' of
             None \<Rightarrow> []
           | Some u \<Rightarrow> if truthy (Some u) \<and> isImageUrl (js_String u) then [u] else [])))))"

definition post_of :: "jsval \<Rightarrow> js_error + Post" where
  "post_of post =
     and_then (getProp post ''name'') (\<lambda>name.
     and_then (extractMediaUrls post) (\<lambda>urls.
       Inr \<lparr>post_id = js_or name (optProp post ''id''),
            post_title = optProp post ''title'',
            post_body = optProp post ''selftext'',
            post_mediaUrls = urls,
            post_platform = ''reddit'',
            post_metadata = [(''subreddit'', optProp post ''subreddit''),
                             (''author'', optProp post ''author''),
                             (''created'', optProp post ''created_utc'')]\<rparr>))"

definition comment_of :: "jsval \<Rightarrow> Post" where
  "comment_of cdata =
     \<lparr>post_id = js_or (optProp cdata ''name'') (optProp cdata ''id''),
      post_title = None,
      post_body = optProp cdata ''body'',
      post_mediaUrls = [],
      post_platform = ''reddit'',
      post_metadata = [(''type'', Some (JStr ''comment'')),
                       (''author'', optProp cdata ''author''),
                       (''parent'', optProp cdata ''parent_id'')]\<rparr>"

text \<open>The two shape tests, shared by \<open>extractPosts\<close> and
  \<open>updateResponseWithProcessedPosts\<close>, on a value that is not \<open>null\<close>.\<close>

definition listing_shape :: "json \<Rightarrow> bool" where
  "listing_shape data =
     (own_prop data ''kind'' = Some (JStr ''Listing'')
      \<and> isArray (optProp (own_prop data ''data'') ''children''))"

definition detail_shape :: "json \<Rightarrow> bool" where
  "detail_shape data =
     (truthy (optProp (optIndex (optProp (optProp (own_index data 0) ''data'') ''children'') 0) ''data'')
      \<and> truthy (optProp (optProp (own_index data 1) ''data'') ''children''))"

definition listing_children :: "json \<Rightarrow> json list" where
  "listing_children data =
     (case optProp (own_prop data ''data'') ''children'' of Some (JArr cs) \<Rightarrow> cs | _ \<Rightarrow> [])"

fun listing_posts :: "json list \<Rightarrow> js_error + Post list" where
  "listing_posts [] = Inr []"
| "listing_posts (child # children) =
     (if child = JNull then Inl TypeError
      else if own_prop child ''kind'' = Some (JStr ''t3'')
      then (case post_of (own_prop child ''data'') of
              Inl e \<Rightarrow> Inl e
            | Inr p \<Rightarrow> (case listing_posts children of Inl e \<Rightarrow> Inl e | Inr ps \<Rightarrow> Inr (p # ps)))
      else listing_posts children)"

fun comment_posts :: "json list \<Rightarrow> js_error + Post list" where
  "comment_posts [] = Inr []"
| "comment_posts (comment # comments) =
     (if comment = JNull then Inl TypeError
      else if own_prop comment ''kind'' = Some (JStr ''t1'') \<and> truthy (own_prop comment ''data'')
      then (case comment_posts comments of
              Inl e \<Rightarrow> Inl e
            | Inr ps \<Rightarrow> Inr (comment_of (own_prop comment ''data'') # ps))
      else comment_posts comments)"

definition detail_posts :: "json \<Rightarrow> js_error + Post list" where
  "detail_posts data =
     and_then (post_of (optProp (optIndex (optProp (optProp (own_index data 0) ''data'') ''children'') 0) ''data''))
       (\<lambda>p.
     and_then
       (case optProp (optProp (own_index data 1) ''data'') ''children'' of
          Some (JArr comments) \<Rightarrow> comment_posts comments
        | _ \<Rightarrow> Inl TypeError) (\<lambda>cs. Inr (p # cs)))"

text \<open>The body of the \<open>try\<close> of \<open>extractPosts\<close> after the parse.\<close>

definition extract_body :: "json \<Rightarrow> js_error + Post list" where
  "extract_body data =
     (if data = JNull then Inl TypeError
      else
        and_then (if listing_shape data then listing_posts (listing_children data) else Inr [])
          (\<lambda>posts1.
        and_then (if detail_shape data then detail_posts data else Inr [])
          (\<lambda>posts2. Inr (posts1 @ posts2))))"

definition extractPosts :: "json_parser \<Rightarrow> string \<Rightarrow> js_error + Post list" where
  "extractPosts parse responseData =
     (case parse responseData of
        None \<Rightarrow> Inr []
      | Some data \<Rightarrow> (case extract_body data of Inl e \<Rightarrow> Inr [] | Inr posts \<Rightarrow> Inr posts))"

subsection \<open>updateResponseWithProcessedPosts\<close>

text \<open>The \<open>Map\<close> filled by \<open>processedPosts.forEach\<close>: a later post with the same id
  replaces an earlier one. \<open>get\<close> with a value that is no string finds nothing.\<close>

definition processedPostMap :: "ProcessedPost list \<Rightarrow> (string \<rightharpoonup> ProcessedPost)" where
  "processedPostMap processedPosts = foldl (\<lambda>m p. m(pp_id p \<mapsto> p)) Map.empty processedPosts"

definition map_get :: "(string \<rightharpoonup> ProcessedPost) \<Rightarrow> jsval \<Rightarrow> ProcessedPost option" where
  "map_get m key = (case key of Some (JStr s) \<Rightarrow> m s | _ \<Rightarrow> None)"

text \<open>
  \<open>obj.k = v\<close> in strict code: a member of an object is replaced where it stands or
  added at the end; a member set on an array is not an element and does not reach
  \<open>JSON.stringify\<close>; on \<open>null\<close> and on a primitive value the assignment throws.
\<close>

fun setProp :: "json \<Rightarrow> string \<Rightarrow> json \<Rightarrow> js_error + json" where
  "setProp (JObj kvs) k v = Inr (JObj (AList.update k v kvs))"
| "setProp (JArr xs) k v = Inr (JArr xs)"
| "setProp obj k v = Inl TypeError"

text \<open>\<open>obj.k1.k2 = v\<close>, the object \<open>obj.k1\<close> being changed in place.\<close>

definition setProp2 :: "json \<Rightarrow> string \<Rightarrow> string \<Rightarrow> json \<Rightarrow> js_error + json" where
  "setProp2 obj k1 k2 v =
     (case own_prop obj k1 of
        None \<Rightarrow> Inl TypeError
      | Some inner \<Rightarrow> and_then (setProp inner k2 v) (\<lambda>inner'. setProp obj k1 inner'))"

definition update_resolutions :: "json \<Rightarrow> json \<Rightarrow> js_error + json" where
  "update_resolutions url im =
     (case own_prop im ''resolutions'' of
        Some (JArr rs) \<Rightarrow>
          and_then (traverse (\<lambda>resolution. setProp resolution ''url'' url) rs)
            (\<lambda>rs'. setProp im ''resolutions'' (JArr rs'))
      | _ \<Rightarrow> Inr im)"

text \<open>The \<open>forEach\<close> over \<open>post.preview.images\<close> with its running
  \<open>urlIndex\<close>.\<close>

fun update_images :: "string list \<Rightarrow> nat \<Rightarrow> json list \<Rightarrow> js_error + json list" where
  "update_images urls urlIndex [] = Inr []"
| "update_images urls urlIndex (im # ims) =
     (if im = JNull then Inl TypeError
      else if truthy (own_prop im ''source'') \<and> urlIndex < length urls
      then
        and_then (setProp2 im ''source'' ''url'' (JStr (urls ! urlIndex))) (\<lambda>im1.
        and_then (update_resolutions (JStr (urls ! urlIndex)) im1) (\<lambda>im2.
        and_then (update_images urls (urlIndex + 1) ims) (\<lambda>ims'. Inr (im2 # ims'))))
      else and_then (update_images urls urlIndex ims) (\<lambda>ims'. Inr (im # ims')))"

text \<open>The \<open>forEach\<close> over \<open>Object.keys(post.media_metadata)\<close>, on the members in
  the order of the list.\<close>

fun update_gallery :: "string list \<Rightarrow> nat \<Rightarrow> json list \<Rightarrow> js_error + json list" where
  "update_gallery urls urlIndex [] = Inr []"
| "update_gallery urls urlIndex (media # medias) =
     (if media = JNull then Inl TypeError
      else if truthy (own_prop media ''s'') \<and> urlIndex < length urls
      then
        and_then (setProp2 media ''s'' ''u'' (JStr (urls ! urlIndex))) (\<lambda>media1.
        and_then (update_gallery urls (urlIndex + 1) medias) (\<lambda>medias'. Inr (media1 # medias')))
      else and_then (update_gallery urls urlIndex medias) (\<lambda>medias'. Inr (media # medias')))"

definition update_media_metadata :: "string list \<Rightarrow> json \<Rightarrow> js_error + json" where
  "update_media_metadata urls mm =
     (case mm of
        JObj kvs \<Rightarrow>
          and_then (update_gallery urls 0 (map snd kvs)) (\<lambda>vs. Inr (JObj (zip (map fst kvs) vs)))
      | JArr xs \<Rightarrow> and_then (update_gallery urls 0 xs) (\<lambda>vs. Inr (JArr vs))
      | _ \<Rightarrow> Inr mm)"

definition updateMediaUrls :: "json \<Rightarrow> string list \<Rightarrow> js_error + json" where
  "updateMediaUrls post processedUrls =
     and_then
       (if length processedUrls = 1 \<and> truthy (own_prop post ''url'')
           \<and> isImageUrl (join_elem (own_prop post ''url''))
        then setProp post ''url'' (JStr (processedUrls ! 0))
        else Inr post) (\<lambda>post1.
     and_then
       (if truthy (optProp (own_prop post1 ''preview'') ''images'') \<and> length processedUrls > 0
        then (case (own_prop post1 ''preview'', optProp (own_prop post1 ''preview'') ''images'') of
                (Some preview, Some (JArr images)) \<Rightarrow>
                  and_then (update_images processedUrls 0 images) (\<lambda>images'.
                  and_then (setProp preview ''images'' (JArr images')) (\<lambda>preview'.
                    setProp post1 ''preview'' preview'))
              | _ \<Rightarrow> Inl TypeError)
        else Inr post1) (\<lambda>post2.
       if truthy (own_prop post2 ''media_metadata'') \<and> length processedUrls > 0
       then (case own_prop post2 ''media_metadata'' of
               None \<Rightarrow> Inr post2
             | Some mm \<Rightarrow>
                 and_then (update_media_metadata processedUrls mm)
                   (\<lambda>mm'. setProp post2 ''media_metadata'' mm'))
       else Inr post2))"

text \<open>The updates of one post from its processed post, shared by the listing branch
  and the main post of the detail branch.\<close>

definition nonempty :: "string option \<Rightarrow> bool" where
  "nonempty s = (case s of None \<Rightarrow> False | Some t \<Rightarrow> t \<noteq> [])"

definition text_of :: "string option \<Rightarrow> string" where
  "text_of s = (case s of None \<Rightarrow> [] | Some t \<Rightarrow> t)"

definition has_media :: "ProcessedPost \<Rightarrow> bool" where
  "has_media processedPost =
     (case processedMediaUrls processedPost of None \<Rightarrow> False | Some urls \<Rightarrow> urls \<noteq> [])"

definition apply_processed :: "MarkerHandler list \<Rightarrow> ProcessedPost \<Rightarrow> json \<Rightarrow> js_error + json" where
  "apply_processed hs processedPost post =
     and_then
       (if nonempty (processedTitle processedPost)
        then setProp post ''title'' (JStr (processMarkedText hs (text_of (processedTitle processedPost))))
        else Inr post) (\<lambda>post1.
     and_then
       (if nonempty (processedBody processedPost)
        then and_then
               (setProp post1 ''selftext''
                  (JStr (processMarkedText hs (text_of (processedBody processedPost)))))
               (\<lambda>p. setProp p ''selftext_html''
                  (JStr (processMarkedText hs (text_of (processedBody processedPost)))))
        else Inr post1) (\<lambda>post2.
       if has_media processedPost
       then updateMediaUrls post2 (case processedMediaUrls processedPost of None \<Rightarrow> [] | Some urls \<Rightarrow> urls)
       else Inr post2))"

text \<open>\<open>processedPostMap.get(post.name || post.id)\<close>; reading \<open>post.name\<close> of
  \<open>null\<close> or \<open>undefined\<close> throws.\<close>

definition processed_for :: "(string \<rightharpoonup> ProcessedPost) \<Rightarrow> jsval \<Rightarrow> js_error + ProcessedPost option" where
  "processed_for m post =
     and_then (getProp post ''name'') (\<lambda>name. Inr (map_get m (js_or name (optProp post ''id''))))"

text \<open>One step of the \<open>forEach\<close> over the children of a listing. The post is changed in
  place, so the child holds the changed post afterwards.\<close>

definition update_child :: "MarkerHandler list \<Rightarrow> (string \<rightharpoonup> ProcessedPost) \<Rightarrow> json \<Rightarrow> js_error + json" where
  "update_child hs m child =
     (if child = JNull then Inl TypeError
      else if own_prop child ''kind'' = Some (JStr ''t3'')
      then and_then (processed_for m (own_prop child ''data'')) (\<lambda>found.
             case (found, own_prop child ''data'') of
               (Some processedPost, Some post) \<Rightarrow>
                 and_then (apply_processed hs processedPost post) (\<lambda>post'. setProp child ''data'' post')
             | _ \<Rightarrow> Inr child)
      else Inr child)"

definition update_listing :: "MarkerHandler list \<Rightarrow> (string \<rightharpoonup> ProcessedPost) \<Rightarrow> json \<Rightarrow> js_error + json" where
  "update_listing hs m data =
     (case own_prop data ''data'' of
        None \<Rightarrow> Inr data
      | Some d \<Rightarrow>
          and_then (traverse (update_child hs m) (listing_children data)) (\<lambda>children'.
          and_then (setProp d ''children'' (JArr children')) (\<lambda>d'. setProp data ''data'' d')))"

text \<open>\<open>obj[i] = v\<close> for the in-place change of the value at an index that exists.\<close>

fun setIndex :: "json \<Rightarrow> nat \<Rightarrow> json \<Rightarrow> json" where
  "setIndex (JArr xs) i v = JArr (xs[i := v])"
| "setIndex (JObj kvs) i v = JObj (AList.update (string_of_nat i) v kvs)"
| "setIndex obj i v = obj"

text \<open>The main post of the detail branch, \<open>data[0].data.children[0].data\<close>, which the
  shape test has found to be there. It is changed in place, so every value on the path to
  it holds the change afterwards.\<close>

definition update_main_post :: "MarkerHandler list \<Rightarrow> (string \<rightharpoonup> ProcessedPost) \<Rightarrow> json \<Rightarrow> js_error + json" where
  "update_main_post hs m data =
     (case own_index data 0 of
        None \<Rightarrow> Inl TypeError
      | Some v0 \<Rightarrow>
          (case own_prop v0 ''data'' of
             None \<Rightarrow> Inl TypeError
           | Some d0 \<Rightarrow>
               (case own_prop d0 ''children'' of
                  None \<Rightarrow> Inl TypeError
                | Some c0 \<Rightarrow>
                    (case own_index c0 0 of
                       None \<Rightarrow> Inl TypeError
                     | Some ch0 \<Rightarrow>
                         and_then (processed_for m (own_prop ch0 ''data'')) (\<lambda>found.
                           case (found, own_prop ch0 ''data'') of
                             (Some processedPost, Some post) \<Rightarrow>
                               and_then (apply_processed hs processedPost post) (\<lambda>post'.
                               and_then (setProp ch0 ''data'' post') (\<lambda>ch0'.
                               and_then (setProp d0 ''children'' (setIndex c0 0 ch0')) (\<lambda>d0'.
                               and_then (setProp v0 ''data'' d0') (\<lambda>v0'.
                                 Inr (setIndex data 0 v0')))))
                           | _ \<Rightarrow> Inr data)))))"

definition update_comment :: "MarkerHandler list \<Rightarrow> (string \<rightharpoonup> ProcessedPost) \<Rightarrow> json \<Rightarrow> js_error + json" where
  "update_comment hs m comment =
     (if comment = JNull then Inl TypeError
      else if own_prop comment ''kind'' = Some (JStr ''t1'') \<and> truthy (own_prop comment ''data'')
      then
        (case (map_get m (js_or (optProp (own_prop comment ''data'') ''name'')
                                (optProp (own_prop comment ''data'') ''id'')),
               own_prop comment ''data'') of
           (Some processedComment, Some cdata) \<Rightarrow>
             if nonempty (processedBody processedComment)
             then
               and_then (setProp cdata ''body''
                           (JStr (processMarkedText hs (text_of (processedBody processedComment)))))
                 (\<lambda>c1.
               and_then (setProp c1 ''body_html''
                           (JStr (processMarkedText hs (text_of (processedBody processedComment)))))
                 (\<lambda>c2. setProp comment ''data'' c2))
             else Inr comment
         | _ \<Rightarrow> Inr comment)
      else Inr comment)"

definition update_comments :: "MarkerHandler list \<Rightarrow> (string \<rightharpoonup> ProcessedPost) \<Rightarrow> json \<Rightarrow> js_error + json" where
  "update_comments hs m data =
     (case own_index data 1 of
        None \<Rightarrow> Inl TypeError
      | Some v1 \<Rightarrow>
          (case own_prop v1 ''data'' of
             None \<Rightarrow> Inl TypeError
           | Some d1 \<Rightarrow>
               (case own_prop d1 ''children'' of
                  Some (JArr comments) \<Rightarrow>
                    and_then (traverse (update_comment hs m) comments) (\<lambda>comments'.
                    and_then (setProp d1 ''children'' (JArr comments')) (\<lambda>d1'.
                    and_then (setProp v1 ''data'' d1') (\<lambda>v1'. Inr (setIndex data 1 v1'))))
                | _ \<Rightarrow> Inl TypeError)))"

definition update_detail :: "MarkerHandler list \<Rightarrow> (string \<rightharpoonup> ProcessedPost) \<Rightarrow> json \<Rightarrow> js_error + json" where
  "update_detail hs m data = and_then (update_main_post hs m data) (update_comments hs m)"

text \<open>The body of the \<open>try\<close> between \<open>JSON.parse\<close> and
  \<open>JSON.stringify\<close>. The second shape test reads the data as the first branch left
  it.\<close>

definition update_tree :: "MarkerHandler list \<Rightarrow> (string \<rightharpoonup> ProcessedPost) \<Rightarrow> json \<Rightarrow> js_error + json" where
  "update_tree hs m data =
     (if data = JNull then Inl TypeError
      else
        and_then (if listing_shape data then update_listing hs m data else Inr data) (\<lambda>data1.
          if detail_shape data1 then update_detail hs m data1 else Inr data1))"

text \<open>\<open>JSON.stringify\<close> belongs to the runtime and is a parameter.\<close>

definition updateResponseWithProcessedPosts ::
  "json_parser \<Rightarrow> (json \<Rightarrow> string) \<Rightarrow> MarkerHandler list \<Rightarrow> string \<Rightarrow> ProcessedPost list
     \<Rightarrow> js_error + string" where
  "updateResponseWithProcessedPosts parse stringify hs originalResponse processedPosts =
     (case parse originalResponse of
        None \<Rightarrow> Inr originalResponse
      | Some data \<Rightarrow>
          (case update_tree hs (processedPostMap processedPosts) data of
             Inl e \<Rightarrow> Inr originalResponse
           | Inr data' \<Rightarrow> Inr (stringify data')))"

subsection \<open>A listing with one post\<close>

definition example_listing :: json where
  "example_listing =
     JObj [(''kind'', JStr ''Listing''),
           (''data'', JObj [(''children'',
              JArr [JObj [(''kind'', JStr ''t3''),
                          (''data'', JObj [(''id'', JStr ''t3_abc''), (''title'', JStr ''T''),
                                           (''selftext'', JStr ''B'')])]])])]"

definition example_processed :: ProcessedPost where
  "example_processed =
     \<lparr>pp_id = ''t3_abc'', processedTitle = Some ''T2'', processedBody = None,
      processedMediaUrls = Some []\<rparr>"

definition example_merged :: json where
  "example_merged =
     JObj [(''kind'', JStr ''Listing''),
           (''data'', JObj [(''children'',
              JArr [JObj [(''kind'', JStr ''t3''),
                          (''data'', JObj [(''id'', JStr ''t3_abc''), (''title'', JStr ''T2''),
                                           (''selftext'', JStr ''B'')])]])])]"

subsection \<open>The fields a processed post may change\<close>

text \<open>
  \<open>within g v\<close> goes through the members of an object and keeps, drops or replaces each
  as \<open>g\<close> says; \<open>each f v\<close> applies \<open>f\<close> to the elements of an array, and
  \<open>each_member f v\<close> to the values of an object or the elements of an array. A value
  of another kind is left as it is.
\<close>

definition within :: "(string \<Rightarrow> json \<Rightarrow> json option) \<Rightarrow> json \<Rightarrow> json" where
  "within g v =
     (case v of
        JObj kvs \<Rightarrow> JObj (List.map_filter (\<lambda>(k, x). map_option (Pair k) (g k x)) kvs)
      | _ \<Rightarrow> v)"

definition each :: "(json \<Rightarrow> json) \<Rightarrow> json \<Rightarrow> json" where
  "each f v = (case v of JArr xs \<Rightarrow> JArr (map f xs) | _ \<Rightarrow> v)"

definition each_member :: "(json \<Rightarrow> json) \<Rightarrow> json \<Rightarrow> json" where
  "each_member f v =
     (case v of
        JObj kvs \<Rightarrow> JObj (map (\<lambda>(k, x). (k, f x)) kvs)
      | JArr xs \<Rightarrow> JArr (map f xs)
      | _ \<Rightarrow> v)"

definition without :: "string \<Rightarrow> json \<Rightarrow> json" where
  "without key = within (\<lambda>k x. if k = key then None else Some x)"

definition at_member :: "string \<Rightarrow> (json \<Rightarrow> json) \<Rightarrow> json \<Rightarrow> json" where
  "at_member key f = within (\<lambda>k x. if k = key then Some (f x) else Some x)"

text \<open>
  The media URLs of a post: \<open>preview.images[i].source.url\<close>,
  \<open>preview.images[i].resolutions[j].url\<close> and \<open>media_metadata[k].s.u\<close>, besides
  \<open>url\<close>. The functions below remove them and nothing else.
\<close>

definition blank_image :: "json \<Rightarrow> json" where
  "blank_image =
     within (\<lambda>k x. if k = ''source'' then Some (without ''url'' x)
                    else if k = ''resolutions'' then Some (each (without ''url'') x)
                    else Some x)"

definition blank_preview :: "json \<Rightarrow> json" where
  "blank_preview = at_member ''images'' (each blank_image)"

definition blank_media :: "json \<Rightarrow> json" where
  "blank_media = at_member ''s'' (without ''u'')"

definition blank_gallery :: "json \<Rightarrow> json" where
  "blank_gallery = each_member blank_media"

text \<open>
  What is left of a post when the fields present on its processed post are removed: the
  title when there is a processed title, \<open>selftext\<close> and \<open>selftext_html\<close> when
  there is a processed body, the media URLs when there are processed media URLs.
\<close>

definition blank_fields :: "ProcessedPost \<Rightarrow> string \<Rightarrow> json \<Rightarrow> json option" where
  "blank_fields processedPost k x =
     (if k = ''title'' \<and> nonempty (processedTitle processedPost) then None
      else if (k = ''selftext'' \<or> k = ''selftext_html'') \<and> nonempty (processedBody processedPost)
      then None
      else if has_media processedPost
      then (if k = ''url'' then None
            else if k = ''preview'' then Some (blank_preview x)
            else if k = ''media_metadata'' then Some (blank_gallery x)
            else Some x)
      else Some x)"

definition blank_post :: "ProcessedPost \<Rightarrow> json \<Rightarrow> json" where
  "blank_post processedPost = within (blank_fields processedPost)"

text \<open>
  The same for a child of a listing and for the listing: only a \<open>t3\<close> child whose post
  has its id in the map loses anything; every other child and every other member stays.
\<close>

definition blank_child :: "(string \<rightharpoonup> ProcessedPost) \<Rightarrow> json \<Rightarrow> json" where
  "blank_child m child =
     (if own_prop child ''kind'' = Some (JStr ''t3'')
      then (case processed_for m (own_prop child ''data'') of
              Inr (Some processedPost) \<Rightarrow> at_member ''data'' (blank_post processedPost) child
            | _ \<Rightarrow> child)
      else child)"

definition blank_listing :: "(string \<rightharpoonup> ProcessedPost) \<Rightarrow> json \<Rightarrow> json" where
  "blank_listing m = at_member ''data'' (at_member ''children'' (each (blank_child m)))"



text \<open>A response has a recognized shape when it is not \<open>null\<close> and passes one of the
  two shape tests.\<close>

definition recognized_shape :: "json \<Rightarrow> bool" where
  "recognized_shape data = (data \<noteq> JNull \<and> (listing_shape data \<or> detail_shape data))"

text \<open>The text of the listing with one post and of its merged form, and stand-ins for
  \<open>JSON.parse\<close> and \<open>JSON.stringify\<close> on the texts of the concrete runs.\<close>

definition example_text :: string where
  "example_text = ''{\"kind\":\"Listing\",\"data\":{\"children\":[{\"kind\":\"t3\",\"data\":{\"id\":\"t3_abc\",\"title\":\"T\",\"selftext\":\"B\"}}]}}''"

definition example_merged_text :: string where
  "example_merged_text = ''{\"kind\":\"Listing\",\"data\":{\"children\":[{\"kind\":\"t3\",\"data\":{\"id\":\"t3_abc\",\"title\":\"T2\",\"selftext\":\"B\"}}]}}''"

definition example_parse :: json_parser where
  "example_parse s =
     (if s = example_text then Some example_listing
      else if s = ''{\"foo\":1}'' then Some (JObj [(''foo'', JNum 1)])
      else None)"

definition example_stringify :: "json \<Rightarrow> string" where
  "example_stringify v = (if v = example_merged then example_merged_text else [])"

section \<open>Properties of the fetch interceptor\<close>

lemma wait_step_idle:
  "\<not> fw_timer w \<Longrightarrow> \<not> fw_listener w \<Longrightarrow> wait_step w ev = w"
  by (cases ev) simp_all

lemma wait_run_idle:
  "\<not> fw_timer w \<Longrightarrow> \<not> fw_listener w \<Longrightarrow> wait_run w evs = w"
  unfolding wait_run_def by (induction evs) (simp_all add: wait_step_idle)

lemma wait_step_uncorrelated:
  "\<not> carries_id (fw_requestId w) ev \<Longrightarrow> ev \<noteq> TimeoutFired \<Longrightarrow> wait_step w ev = w"
  by (cases ev) (simp_all add: carries_id_def)

lemma wait_run_before_timeout:
  assumes "fw_timer w" "fw_listener w" "fw_promise w = None" "fw_resolve_calls w = 0"
    and "\<forall>ev \<in> set pre. \<not> carries_id (fw_requestId w) ev"
  shows "wait_run w (pre @ [TimeoutFired]) =
           w\<lparr>fw_timer := False, fw_listener := False,
             fw_promise := Some (CloneForPage (fw_response w)), fw_resolve_calls := 1\<rparr>"
  using assms
proof (induction pre arbitrary: w)
  case Nil
  then show ?case by (simp add: wait_run_def fw_resolve_def)
next
  case (Cons ev pre)
  show ?case
  proof (cases ev)
    case TimeoutFired
    let ?w = "wait_step w TimeoutFired"
    have idle: "\<not> fw_timer ?w" "\<not> fw_listener ?w"
      using Cons.prems by (simp_all add: fw_resolve_def)
    have "wait_run w ((ev # pre) @ [TimeoutFired]) = wait_run ?w (pre @ [TimeoutFired])"
      using TimeoutFired by (simp add: wait_run_def)
    also have "\<dots> = ?w" using idle by (rule wait_run_idle)
    finally show ?thesis using Cons.prems by (simp add: fw_resolve_def)
  next
    case (CustomFeedReady i r)
    then have "wait_step w ev = w"
      using Cons.prems(5) by (intro wait_step_uncorrelated) simp_all
    then have "wait_run w ((ev # pre) @ [TimeoutFired]) = wait_run w (pre @ [TimeoutFired])"
      by (simp add: wait_run_def)
    then show ?thesis using Cons.IH [of w] Cons.prems by simp
  qed
qed

text \<open>
  C10. A request whose URL matches the subscribed endpoints and whose response is not ok
  gets the response object itself back; the request counter is untouched and no
  \<open>SaveBatch\<close> event is dispatched.
\<close>

theorem fetch_error_response_passes_through:
  assumes "shouldInterceptUrl parseUrl url (fi_subscribedEndpoints self) = Inr True"
    and "\<not> resp_ok response"
  shows "overrideFetch parseUrl now self url (FetchResolved response)
           = (ReturnResponse (Original response), self, [])"
  using assms by (simp add: overrideFetch_def is_true_def)

theorem fetch_error_response_passes_through_witness:
  "shouldInterceptUrl (\<lambda>u. Some ''/svc/shreddit/feeds/home-feed'') ''https://www.reddit.com/svc/shreddit/feeds/home-feed''
      (fi_subscribedEndpoints \<lparr>fi_requestIdCounter = 4, fi_subscribedEndpoints = [''home-feed'']\<rparr>) = Inr True
   \<and> \<not> resp_ok \<lparr>resp_ok = False, resp_status = 503, resp_statusText = ''Service Unavailable'',
                 resp_headers = [], resp_body = Inr ''busy''\<rparr>
   \<and> overrideFetch (\<lambda>u. Some ''/svc/shreddit/feeds/home-feed'') ''2025-01-01T00:00:00.000Z''
        \<lparr>fi_requestIdCounter = 4, fi_subscribedEndpoints = [''home-feed'']\<rparr>
        ''https://www.reddit.com/svc/shreddit/feeds/home-feed''
        (FetchResolved \<lparr>resp_ok = False, resp_status = 503, resp_statusText = ''Service Unavailable'',
                 resp_headers = [], resp_body = Inr ''busy''\<rparr>)
      = (ReturnResponse (Original \<lparr>resp_ok = False, resp_status = 503,
                 resp_statusText = ''Service Unavailable'', resp_headers = [], resp_body = Inr ''busy''\<rparr>),
         \<lparr>fi_requestIdCounter = 4, fi_subscribedEndpoints = [''home-feed'']\<rparr>, [])"
proof -
  have h1: "shouldInterceptUrl (\<lambda>u. Some ''/svc/shreddit/feeds/home-feed'') ''https://www.reddit.com/svc/shreddit/feeds/home-feed''
      (fi_subscribedEndpoints \<lparr>fi_requestIdCounter = 4, fi_subscribedEndpoints = [''home-feed'']\<rparr>) = Inr True"
    by (simp add: shouldInterceptUrl_def path_segments_def)
  have h2: "\<not> resp_ok \<lparr>resp_ok = False, resp_status = 503, resp_statusText = ''Service Unavailable'',
                 resp_headers = [], resp_body = Inr ''busy''\<rparr>"
    by simp
  show ?thesis
    using h1 h2 fetch_error_response_passes_through [OF h1 h2] by simp
qed

text \<open>
  C3. Once the override has created its promise: if no \<open>CustomFeedReady\<close> event
  carrying the request's id is dispatched before the timer fires, then whatever is
  dispatched afterwards, the promise holds the clone of the original response, whose body
  is the original body, and \<open>resolve\<close> has been called exactly once.
\<close>

theorem fetch_timeout_resolves_original_once:
  assumes "overrideFetch parseUrl now self url (FetchResolved response)
             = (AwaitProcessed w, self', dispatched)"
    and "\<forall>ev \<in> set pre. \<not> carries_id (fw_requestId w) ev"
  shows "fw_promise (wait_run w (pre @ TimeoutFired # post)) = Some (CloneForPage response)
       \<and> page_body (CloneForPage response) = resp_body response
       \<and> fw_resolve_calls (wait_run w (pre @ TimeoutFired # post)) = 1"
proof -
  from assms(1) have w: "fw_timer w" "fw_listener w" "fw_promise w = None"
    "fw_resolve_calls w = 0" "fw_response w = response"
    by (auto simp: overrideFetch_def Let_def split: if_splits option.splits sum.splits)
  let ?t = "wait_run w (pre @ [TimeoutFired])"
  have t: "?t = w\<lparr>fw_timer := False, fw_listener := False,
             fw_promise := Some (CloneForPage (fw_response w)), fw_resolve_calls := 1\<rparr>"
    using w(1-4) assms(2) by (rule wait_run_before_timeout)
  have "wait_run w (pre @ TimeoutFired # post) = wait_run ?t post"
    by (simp add: wait_run_def)
  also have "\<dots> = ?t" by (rule wait_run_idle) (simp_all add: t)
  finally show ?thesis by (simp add: t w(5))
qed

theorem fetch_timeout_resolves_original_once_witness:
  "overrideFetch (\<lambda>u. Some ''/svc/shreddit/feeds/home-feed'') ''2025-01-01T00:00:00.000Z''
      \<lparr>fi_requestIdCounter = 0, fi_subscribedEndpoints = [''home-feed'']\<rparr>
      ''https://www.reddit.com/svc/shreddit/feeds/home-feed'' (FetchResolved fetch_example_response)
     = (AwaitProcessed fetch_example_wait,
        \<lparr>fi_requestIdCounter = 1, fi_subscribedEndpoints = [''home-feed'']\<rparr>,
        [\<lparr>ir_id = ''0'', ir_url = ''https://www.reddit.com/svc/shreddit/feeds/home-feed'',
          ir_startTime = ''2025-01-01T00:00:00.000Z'', ir_type = ''home-feed'',
          ir_response = ''{\"kind\":\"Listing\"}''\<rparr>])
   \<and> \<not> carries_id (fw_requestId fetch_example_wait) (CustomFeedReady ''7'' ''other'')
   \<and> fw_promise (wait_run fetch_example_wait
          ([CustomFeedReady ''7'' ''other''] @ TimeoutFired # [CustomFeedReady ''0'' ''late'']))
       = Some (CloneForPage fetch_example_response)
   \<and> fw_resolve_calls (wait_run fetch_example_wait
          ([CustomFeedReady ''7'' ''other''] @ TimeoutFired # [CustomFeedReady ''0'' ''late''])) = 1"
proof -
  have h1: "overrideFetch (\<lambda>u. Some ''/svc/shreddit/feeds/home-feed'') ''2025-01-01T00:00:00.000Z''
      \<lparr>fi_requestIdCounter = 0, fi_subscribedEndpoints = [''home-feed'']\<rparr>
      ''https://www.reddit.com/svc/shreddit/feeds/home-feed'' (FetchResolved fetch_example_response)
     = (AwaitProcessed fetch_example_wait,
        \<lparr>fi_requestIdCounter = 1, fi_subscribedEndpoints = [''home-feed'']\<rparr>,
        [\<lparr>ir_id = ''0'', ir_url = ''https://www.reddit.com/svc/shreddit/feeds/home-feed'',
          ir_startTime = ''2025-01-01T00:00:00.000Z'', ir_type = ''home-feed'',
          ir_response = ''{\"kind\":\"Listing\"}''\<rparr>])"
    by (simp add: overrideFetch_def shouldInterceptUrl_def path_segments_def is_true_def
        actionName_of_def fetch_example_response_def fetch_example_wait_def
        string_of_nat.simps digit_char_def Let_def)
  have h2: "\<forall>ev \<in> set [CustomFeedReady ''7'' ''other''].
         \<not> carries_id (fw_requestId fetch_example_wait) ev"
    by (simp add: carries_id_def fetch_example_wait_def)
  show ?thesis
    using h1 h2 fetch_timeout_resolves_original_once [OF h1 h2, of "[CustomFeedReady ''0'' ''late'']"]
    by simp
qed

section \<open>Properties of the XHR interceptor\<close>

lemma xhr_feed_ready_other_id:
  "xi_eventHandlers x j = None \<Longrightarrow> xhr_onCustomFeedReady j r x = x"
  by (simp add: xhr_onCustomFeedReady_def)

lemma xhr_run_uncorrelated:
  assumes "\<forall>ev \<in> set evs. is_feed_ready ev \<and> \<not> is_feed_ready_for i ev"
    and "dom (xi_eventHandlers x) \<subseteq> {i}"
  shows "xhr_run parseUrl x evs = x"
  using assms
proof (induction evs)
  case Nil
  then show ?case by (simp add: xhr_run_def)
next
  case (Cons ev evs)
  then obtain j r where ev: "ev = XhrFeedReady j r" and ji: "j \<noteq> i"
    by (cases ev) (auto simp: is_feed_ready_def is_feed_ready_for_def)
  from Cons.prems(2) ji have "xi_eventHandlers x j = None" by auto
  then have "xhr_step parseUrl x ev = x"
    by (simp add: ev xhr_feed_ready_other_id)
  then show ?case using Cons by (simp add: xhr_run_def)
qed

text \<open>
  C5. The claim is that the saved callback is invoked once the response completes, also
  when no correlated \<open>CustomFeedReady\<close> event is ever delivered. The code does not
  do that: a request on a subscribed endpoint that reaches \<open>DONE\<close> with a non-empty
  response text stores its callback in \<open>eventHandlers\<close> and returns; with no event
  carrying its id afterwards, the callback of the page is never invoked.
\<close>

theorem xhr_done_without_feed_ready_never_calls_back:
  assumes "\<forall>ev \<in> set evs. is_feed_ready ev \<and> \<not> is_feed_ready_for ''0'' ev"
  shows "x_callback_calls
           (xhr_run (\<lambda>u. Some ''/svc/shreddit/feeds/home-feed'') xhr_sent_example
              (ReadyStateChange XHR_DONE (Inr ''{\"kind\":\"Listing\"}'') # evs)) = []"
proof -
  let ?p = "\<lambda>u::string. Some ''/svc/shreddit/feeds/home-feed''"
  let ?x = "xhr_step ?p xhr_sent_example (ReadyStateChange XHR_DONE (Inr ''{\"kind\":\"Listing\"}''))"
  have dom: "dom (xi_eventHandlers ?x) \<subseteq> {''0''}" and calls: "x_callback_calls ?x = []"
    by (simp_all add: xhr_sent_example_def xhr_send_def xhr_open_def xhr_fresh_def
        shouldInterceptUrl_def path_segments_def is_true_def intercepted_onreadystatechange_def
        XHR_DONE_def string_of_nat.simps actionName_of_def digit_char_def)
  have "xhr_run ?p xhr_sent_example (ReadyStateChange XHR_DONE (Inr ''{\"kind\":\"Listing\"}'') # evs)
          = xhr_run ?p ?x evs"
    by (simp add: xhr_run_def)
  also have "\<dots> = ?x" using assms dom by (rule xhr_run_uncorrelated)
  finally show ?thesis using calls by simp
qed

theorem xhr_done_without_feed_ready_never_calls_back_witness:
  "x_callback_calls
           (xhr_run (\<lambda>u. Some ''/svc/shreddit/feeds/home-feed'') xhr_sent_example
              (ReadyStateChange XHR_DONE (Inr ''{\"kind\":\"Listing\"}'') # [XhrFeedReady ''1'' ''x''])) = []"
  using xhr_done_without_feed_ready_never_calls_back [of "[XhrFeedReady ''1'' ''x'']"]
  by (simp add: is_feed_ready_def is_feed_ready_for_def)

section \<open>Properties of the image interventions\<close>

text \<open>
  C9. The claim is that the attribute stays on the element when the config is a deferred
  one, of type \<open>cartoonish\<close> or \<open>edit\<close>. The code keeps it for
  \<open>cartoonish\<close> only: a config of type \<open>edit\<close> with status
  \<open>DEFERRED\<close> is handed to \<open>processCartoonishImageMarker\<close>, which starts
  polling, and then the attribute is removed and the image marked as processed.
\<close>

theorem processMarkedImage_edit_deferred_removes_attribute:
  assumes "img_attr (mw_img w) = Some config" and "config \<noteq> []"
    and "parse config = Some configData"
    and "getProp (Some configData) ''type'' = Inr (Some (JStr ''edit''))"
    and "optProp (Some configData) ''status'' = Some (JStr ''DEFERRED'')"
  shows "img_attr (mw_img (processMarkedImage parse maxAttempts now w)) = None
       \<and> img_processed (mw_img (processMarkedImage parse maxAttempts now w)) = Some ''true''"
  using assms by (simp add: processMarkedImage_def Let_def)

theorem processMarkedImage_edit_deferred_removes_attribute_witness:
  "img_attr (mw_img (fresh_world marked_image)) = Some ''{\"type\":\"edit\",\"status\":\"DEFERRED\"}''
   \<and> (\<lambda>s. Some edit_deferred_config) ''{\"type\":\"edit\",\"status\":\"DEFERRED\"}'' = Some edit_deferred_config
   \<and> getProp (Some edit_deferred_config) ''type'' = Inr (Some (JStr ''edit''))
   \<and> optProp (Some edit_deferred_config) ''status'' = Some (JStr ''DEFERRED'')
   \<and> img_attr (mw_img (processMarkedImage (\<lambda>s. Some edit_deferred_config) (Some 3) 1000
         (fresh_world marked_image))) = None"
proof -
  have h1: "img_attr (mw_img (fresh_world marked_image)) = Some ''{\"type\":\"edit\",\"status\":\"DEFERRED\"}''"
    by (simp add: fresh_world_def marked_image_def)
  have h2: "''{\"type\":\"edit\",\"status\":\"DEFERRED\"}'' \<noteq> []" by simp
  have h3: "(\<lambda>s::string. Some edit_deferred_config) ''{\"type\":\"edit\",\"status\":\"DEFERRED\"}'' = Some edit_deferred_config"
    by simp
  have h4: "getProp (Some edit_deferred_config) ''type'' = Inr (Some (JStr ''edit''))"
    by (simp add: getProp_def edit_deferred_config_def)
  have h5: "optProp (Some edit_deferred_config) ''status'' = Some (JStr ''DEFERRED'')"
    by (simp add: optProp_def edit_deferred_config_def)
  show ?thesis
    using h1 h3 h4 h5
      processMarkedImage_edit_deferred_removes_attribute [OF h1 h2 h3 h4 h5, of "Some 3" 1000]
    by simp
qed

lemma info_10_20_30_40: "info_numbers ''10_20_30_40'' = [Some 10, Some 20, Some 30, Some 40]"
  by (simp add: info_numbers_def js_Number_def digit_val_def)

text \<open>
  C8. The claim is that applying the blur handler twice with the same coordinates leaves
  one overlay for them. \<open>applyBlurToImage\<close> looks for an existing overlay by
  comparing its viewport rectangle with the offsets inside the container, so in a
  container that is not at the left edge of the viewport the second call finds nothing and
  appends a second overlay with the same coordinates.
\<close>

theorem applyBlurToImage_twice_two_overlays:
  assumes "img_parent img = Container" and "siblings img = []" and "fst (origin img) \<noteq> 0"
  shows "blur_overlays (applyBlurToImage (applyBlurToImage img ''10_20_30_40'') ''10_20_30_40'')
         = [\<lparr>c_tag = DIV, c_classes = [''diymod-blur-overlay''], c_src = [],
              c_left = Some 10, c_top = Some 20, c_width = Some 30, c_height = Some 40\<rparr>,
            \<lparr>c_tag = DIV, c_classes = [''diymod-blur-overlay''], c_src = [],
              c_left = Some 10, c_top = Some 20, c_width = Some 30, c_height = Some 40\<rparr>]"
  using assms
  by (simp add: applyBlurToImage_def info_10_20_30_40 num_at_def ensure_container_def Let_def
      css_offset_def css_size_def num_eq_def rect_left_def px_def blur_overlays_def)

theorem applyBlurToImage_twice_two_overlays_witness:
  "img_parent (marked_image\<lparr>img_parent := Container\<rparr>) = Container
   \<and> siblings (marked_image\<lparr>img_parent := Container\<rparr>) = []
   \<and> fst (origin (marked_image\<lparr>img_parent := Container\<rparr>)) \<noteq> 0
   \<and> length (blur_overlays (applyBlurToImage
        (applyBlurToImage (marked_image\<lparr>img_parent := Container\<rparr>) ''10_20_30_40'') ''10_20_30_40'')) = 2"
proof -
  have h1: "img_parent (marked_image\<lparr>img_parent := Container\<rparr>) = Container" by simp
  have h2: "siblings (marked_image\<lparr>img_parent := Container\<rparr>) = []" by (simp add: marked_image_def)
  have h3: "fst (origin (marked_image\<lparr>img_parent := Container\<rparr>)) \<noteq> 0" by (simp add: marked_image_def)
  show ?thesis
    using h1 h2 h3 applyBlurToImage_twice_two_overlays [OF h1 h2 h3] by simp
qed

text \<open>\<open>applyOverlayToImage\<close> compares the style of the overlays and is idempotent
  on coordinates that are lengths.\<close>

lemma find_append_new:
  "find P xs = None \<Longrightarrow> P x \<Longrightarrow> find P (xs @ [x]) = Some x"
  by (induction xs) (auto split: if_splits)

lemma find_append_old:
  "find P xs = Some y \<Longrightarrow> find P (xs @ zs) = Some y"
  by (induction xs) (auto split: if_splits)

lemma applyOverlayToImage_idempotent:
  assumes "info_numbers info = [Some l, Some t, Some wd, Some h]" and "0 \<le> wd" and "0 \<le> h"
  shows "applyOverlayToImage (applyOverlayToImage img info) info = applyOverlayToImage img info"
proof (cases "img_parent img")
  case Detached
  then show ?thesis by (simp add: applyOverlayToImage_def ensure_container_def Let_def)
next
  case PlainParent
  then show ?thesis using assms
    by (simp add: applyOverlayToImage_def ensure_container_def Let_def num_at_def px_eq_def
        css_offset_def css_size_def)
next
  case Container
  let ?P = "\<lambda>overlay. c_tag overlay = IMG \<and> px_eq (c_left overlay) (Some l)
                         \<and> px_eq (c_top overlay) (Some t) \<and> px_eq (c_width overlay) (Some wd)
                         \<and> px_eq (c_height overlay) (Some h)"
  show ?thesis
  proof (cases "find ?P (siblings img)")
    case None
    then show ?thesis using assms Container
      by (simp add: applyOverlayToImage_def ensure_container_def Let_def num_at_def
          css_offset_def css_size_def find_append_new px_eq_def)
  next
    case (Some y)
    then show ?thesis using assms Container
      by (simp add: applyOverlayToImage_def ensure_container_def Let_def num_at_def)
  qed
qed







lemma processCartoonish_deferred:
  assumes "optProp config ''status'' = Some (JStr ''DEFERRED'')"
  shows "processCartoonishImageMarker maxAttempts now config w =
           startImagePolling maxAttempts now (img_src (mw_img w))
             (snd (deferred_key (mw_img w) config)) config
             (w\<lparr>mw_img := showImageLoadingState (mw_img w)\<rparr>)"
proof -
  from assms have "truthy config"
    by (cases config rule: truthy.cases) (simp_all add: optProp_def)
  moreover have "img_src (showImageLoadingState (mw_img w)) = img_src (mw_img w)"
    by (simp add: showImageLoadingState_def ensure_container_def Let_def split: parent.splits)
  moreover have "polling_filters config (polling_filters config f) = polling_filters config f" for f
    by (simp add: polling_filters_def split: option.splits)
  ultimately show ?thesis using assms
    by (simp add: processCartoonishImageMarker_def Let_def deferred_key_def)
qed

lemma polling_filters_idem:
  "polling_filters config (polling_filters config f) = polling_filters config f"
  by (simp add: polling_filters_def split: option.splits)

lemma startImagePolling_eq:
  assumes "0 < maxPollAttempts maxAttempts"
  shows "startImagePolling maxAttempts now url (polling_filters config f) config w =
     (let key = (url, polling_filters config f) in
      w\<lparr>deferredImages := (deferredImages w)
           (key \<mapsto> \<lparr>d_originalUrl = url, d_filters = polling_filters config f, d_config = config,
                     d_pollCount = 1, d_maxPolls = maxPollAttempts maxAttempts\<rparr>),
        listeners := listeners w @ [(key, now)],
        posted := posted w @ [\<lparr>pr_requestId = (key, now), pr_imageUrl = url,
                                pr_filters = polling_filters config f\<rparr>]\<rparr>)"
  using assms
  by (simp add: startImagePolling_def pollForImageResult_def Let_def polling_filters_idem)

lemma maxPollAttempts_pos: "0 < maxPollAttempts m"
  by (simp add: maxPollAttempts_def DEFAULT_MAX_ATTEMPTS_def split: option.splits)











lemma example_key_eq: "deferred_key marked_image (Some deferred_config) = example_key"
  by (simp add: deferred_key_def example_key_def marked_image_def deferred_config_def
      polling_filters_def optProp_def)

lemma deferred_config_status: "optProp (Some deferred_config) ''status'' = Some (JStr ''DEFERRED'')"
  by (simp add: optProp_def deferred_config_def)


lemma processCartoonish_deferred_world:
  assumes "optProp config ''status'' = Some (JStr ''DEFERRED'')"
  shows "processCartoonishImageMarker maxAttempts now config w =
     w\<lparr>mw_img := showImageLoadingState (mw_img w),
       deferredImages := (deferredImages w)
         (deferred_key (mw_img w) config \<mapsto>
            \<lparr>d_originalUrl = img_src (mw_img w), d_filters = snd (deferred_key (mw_img w) config),
             d_config = config, d_pollCount = 1, d_maxPolls = maxPollAttempts maxAttempts\<rparr>),
       listeners := listeners w @ [(deferred_key (mw_img w) config, now)],
       posted := posted w @
         [\<lparr>pr_requestId = (deferred_key (mw_img w) config, now), pr_imageUrl = img_src (mw_img w),
           pr_filters = snd (deferred_key (mw_img w) config)\<rparr>]\<rparr>"
  by (simp add: processCartoonish_deferred [OF assms] deferred_key_def polling_filters_idem
      startImagePolling_eq maxPollAttempts_pos Let_def)

lemma deferred_key_show [simp]:
  "deferred_key (showImageLoadingState img) config = deferred_key img config"
  by (simp add: deferred_key_def showImageLoadingState_def ensure_container_def Let_def
      split: parent.splits)

lemma marked_src [simp]: "img_src marked_image = ''https://i.redd.it/a.jpg''"
  by (simp add: marked_image_def)

lemma example_key_snd [simp]: "snd example_key = JArr [JStr ''spiders'']"
  by (simp add: example_key_def)

lemma show_marked:
  "showImageLoadingState marked_image = shown_image 1"
  by (simp add: showImageLoadingState_def ensure_container_def marked_image_def shown_image_def
      Let_def classList_add_def)

lemma shown_image_simps [simp]:
  "img_src (shown_image n) = ''https://i.redd.it/a.jpg''"
  "img_parent (shown_image n) = Container"
  "siblings (shown_image n) = replicate n loading_indicator"
  by (simp_all add: shown_image_def)

lemma show_shown: "showImageLoadingState (shown_image n) = shown_image (Suc n)"
  by (simp add: showImageLoadingState_def ensure_container_def shown_image_def Let_def
      classList_add_def replicate_append_same)

lemma remove_shown:
  "removeImageLoadingState (shown_image (Suc n)) = (shown_image n)\<lparr>img_classes := []\<rparr>"
  by (simp add: removeImageLoadingState_def shown_image_def Let_def classList_remove_def
      is_loading_indicator_def loading_indicator_def)

lemma deferred_key_shown [simp]:
  "deferred_key (shown_image n) (Some deferred_config) = example_key"
  by (simp add: deferred_key_def example_key_def deferred_config_def
      polling_filters_def optProp_def)

lemma first_call_world_eq:
  "first_call_world =
     \<lparr>mw_img = shown_image 1, deferredImages = [example_key \<mapsto> example_job 1],
      listeners = [(example_key, 1000)], scheduled = [], posted = [example_request 1000]\<rparr>"
  by (simp add: first_call_world_def processCartoonish_deferred_world [OF deferred_config_status]
      example_key_eq fresh_world_def show_marked example_job_def example_request_def
      maxPollAttempts_def)

lemma second_call_world_eq:
  "second_call_world =
     \<lparr>mw_img = shown_image 2, deferredImages = [example_key \<mapsto> example_job 1],
      listeners = [(example_key, 1000), (example_key, 2000)], scheduled = [],
      posted = [example_request 1000, example_request 2000]\<rparr>"
  by (simp add: second_call_world_def first_call_world_eq
      processCartoonish_deferred_world [OF deferred_config_status]
      show_shown example_job_def example_request_def maxPollAttempts_def numeral_2_eq_2)

lemma second_call_outcome_eq:
  "second_call_outcome =
     \<lparr>mw_img = (shown_image 1)\<lparr>img_classes := []\<rparr>, deferredImages = Map.empty,
      listeners = [], scheduled = [],
      posted = [example_request 1000, example_request 2000, example_request 9000,
                example_request 10000]\<rparr>"
  by (simp add: second_call_outcome_def second_call_world_eq poll_run_def pollForImageResult_def
      scheduleNextPoll_def example_job_def example_request_def remove_shown [of 1, simplified]
      numeral_2_eq_2)

text \<open>
  C6 does not hold of the code. \<open>startImagePolling\<close> never looks whether the key is
  tracked: it overwrites the job under the key with a fresh one and polls at once. Take the
  image of the example, a deferred config and at most three attempts. The first call of
  \<open>processCartoonishImageMarker\<close> tracks the key, shows one loading indicator and has
  one poll in flight. A second call with the same config, while that poll is in flight,
  shows a second loading indicator and puts a second poll in flight for the same key.
  When all polls go unanswered, both loops go on against the one job: four requests are
  posted where three are allowed, and when the job is given up, only the first of the two
  loading indicators is removed; the other stays on the image with nothing left to
  remove it.
\<close>

theorem second_deferred_call_duplicates_polling:
  "deferredImages first_call_world example_key \<noteq> None
   \<and> in_flight_polls example_key first_call_world = 1
   \<and> loading_indicators (mw_img first_call_world) = 1
   \<and> in_flight_polls example_key second_call_world = 2
   \<and> loading_indicators (mw_img second_call_world) = 2
   \<and> maxPollAttempts (Some 3) = 3
   \<and> length (posted second_call_outcome) = 4
   \<and> deferredImages second_call_outcome example_key = None
   \<and> listeners second_call_outcome = [] \<and> scheduled second_call_outcome = []
   \<and> loading_indicators (mw_img second_call_outcome) = 1"
  by (simp add: first_call_world_eq second_call_world_eq second_call_outcome_eq
      in_flight_polls_def loading_indicators_def is_loading_indicator_def loading_indicator_def
      maxPollAttempts_def)
section \<open>Properties of the WebSocket connector\<close>



lemma settle_simps [simp]:
  "pendingRequests (settle h' s w) = pendingRequests w"
  "promises (settle h' s w) h =
     (if h' = h \<and> promises w h = Some None then Some (Some s) else promises w h)"
  "settle_count h (settle h' s w) =
     (if h' = h \<and> promises w h = Some None then settle_count h w + 1 else settle_count h w)"
  "call_count h (settle h' s w) = (if h' = h then call_count h w + 1 else call_count h w)"
  "isConnected (settle h' s w) = isConnected w"
  by (auto simp: settle_def settle_count_def call_count_def Let_def split: option.splits)

lemma settle_pending_update:
  "settle h s (w\<lparr>pendingRequests := p\<rparr>) = (settle h s w)\<lparr>pendingRequests := p\<rparr>"
  by (simp add: settle_def Let_def split: option.splits)

lemma settle_count_simps [simp]:
  "settle_count h (w\<lparr>pendingRequests := p\<rparr>) = settle_count h w"
  "settle_count h (w\<lparr>promises := q\<rparr>) = settle_count h w"
  "settle_count h (w\<lparr>ws_sent := m\<rparr>) = settle_count h w"
  "settle_count h (w\<lparr>isConnected := b\<rparr>) = settle_count h w"
  "settle_count h (w\<lparr>ws_open := b\<rparr>) = settle_count h w"
  by (simp_all add: settle_count_def)

lemma call_count_simps [simp]:
  "call_count h (w\<lparr>pendingRequests := p\<rparr>) = call_count h w"
  "call_count h (w\<lparr>promises := q\<rparr>) = call_count h w"
  "call_count h (w\<lparr>ws_sent := m\<rparr>) = call_count h w"
  "call_count h (w\<lparr>isConnected := b\<rparr>) = call_count h w"
  "call_count h (w\<lparr>ws_open := b\<rparr>) = call_count h w"
  by (simp_all add: call_count_def)

lemma sendMessage_simps [simp]:
  "pendingRequests (sendMessage m w) = pendingRequests w"
  "promises (sendMessage m w) = promises w"
  "settle_count h (sendMessage m w) = settle_count h w"
  "call_count h (sendMessage m w) = call_count h w"
  by (simp_all add: sendMessage_def)

lemma set_delete: "set (AList.delete k al) = {p \<in> set al. fst p \<noteq> k}"
  by (induction al) auto

lemma set_update_subset:
  "p \<in> set (AList.update k v al) \<Longrightarrow> p = (k, v) \<or> p \<in> set al"
  by (induction al) (auto split: if_splits)

lemma keys_update: "fst ` set (AList.update k v al) = insert k (fst ` set al)"
  by (induction al) auto

lemma update_fresh_entries:
  "k \<notin> fst ` set al \<Longrightarrow> (k, e) \<in> set (AList.update k v al) \<Longrightarrow> e = v"
  by (induction al) (auto split: if_splits)

lemma pending_delete_simps [simp]:
  "promises (pending_delete v w) = promises w"
  "settle_count h (pending_delete v w) = settle_count h w"
  "call_count h (pending_delete v w) = call_count h w"
  by (simp_all add: pending_delete_def settle_count_def call_count_def
      split: option.splits json.splits)

lemma keys_delete: "fst ` set (AList.delete k al) = fst ` set al - {k}"
  by (force simp: set_delete)

lemma entry_key: "(k, e) \<in> set al \<Longrightarrow> k \<in> fst ` set al"
  by force

lemma pending_get_SomeD:
  "pending_get w v = Some e \<Longrightarrow> \<exists>k. v = Some (JStr k) \<and> (k, e) \<in> set (pendingRequests w)"
  by (auto simp: pending_get_def split: option.splits json.splits dest: map_of_SomeD)

subsection \<open>Before the request is submitted\<close>

lemma inv_before_settle:
  "inv_before h rid w \<Longrightarrow> inv_before h rid (settle h' s w)"
  by (auto simp: inv_before_def)

lemma inv_before_delete:
  "inv_before h rid w \<Longrightarrow> inv_before h rid (w\<lparr>pendingRequests := AList.delete k (pendingRequests w)\<rparr>)"
  by (auto simp: inv_before_def set_delete)

lemma inv_before_pending_delete:
  "inv_before h rid w \<Longrightarrow> inv_before h rid (pending_delete v w)"
  by (auto simp: pending_delete_def inv_before_delete split: option.splits json.splits)

lemma inv_before_expire:
  "inv_before h rid w \<Longrightarrow> inv_before h rid (expire_entries now t es w)"
proof (induction es arbitrary: w)
  case Nil
  then show ?case by simp
next
  case (Cons a es)
  obtain k e where a: "a = (k, e)" by (cases a)
  have "inv_before h rid ((settle (p_handle e) (Rejected RequestExpired) w)
               \<lparr>pendingRequests := AList.delete k (pendingRequests w)\<rparr>)"
    using inv_before_delete [OF inv_before_settle [OF Cons.prems], of k "p_handle e" "Rejected RequestExpired"]
    by simp
  then show ?case using Cons a by simp
qed

lemma inv_before_step:
  assumes "inv_before h rid w" and "foreign_to h rid ev"
  shows "inv_before h rid (ws_step parse t w ev)"
proof (cases ev)
  case (Submit h' rid' now data platform)
  with assms show ?thesis
    by (auto simp: foreign_to_def processRequest_def Let_def inv_before_def keys_update)
next
  case (ConnectFailed h')
  with assms show ?thesis
    by (auto simp: foreign_to_def processRequest_no_connection_def inv_before_def)
next
  case (Incoming d)
  have "inv_before h rid (handle_response m ty w')" if "inv_before h rid w'" for m ty w'
    using that
    by (auto simp: handle_response_def inv_before_pending_delete inv_before_settle split: option.splits)
  moreover have "inv_before h rid (handle_error m ty w')" if "inv_before h rid w'" for m ty w'
    using that
    by (auto simp: handle_error_def inv_before_pending_delete inv_before_settle split: option.splits)
  ultimately show ?thesis using assms Incoming
    by (auto simp: handleMessage_def split: option.splits sum.splits)
next
  case (RequestTimeout h' rid')
  with assms show ?thesis
    by (auto simp: request_timeout_def intro!: inv_before_settle inv_before_delete)
next
  case (Cleanup now)
  with assms show ?thesis by (simp add: cleanupExpiredRequests_def inv_before_expire)
next
  case SocketOpened
  with assms show ?thesis by (simp add: inv_before_def)
next
  case SocketClosed
  with assms show ?thesis by (simp add: inv_before_def)
qed

lemma inv_before_run:
  "inv_before h rid w \<Longrightarrow> list_all (foreign_to h rid) evs \<Longrightarrow>
     inv_before h rid (ws_run parse t w evs)"
  unfolding ws_run_def by (induction evs arbitrary: w) (simp_all add: inv_before_step)

lemma inv_before_initial: "inv_before h rid (ws_initial uid)"
  by (simp add: inv_before_def ws_initial_def settle_count_def)

lemma submit_establishes:
  assumes "inv_before h rid w"
  shows "inv_during h rid (processRequest h rid now data platform w)"
  using assms
  by (auto simp: inv_before_def inv_during_def processRequest_def Let_def keys_update
      dest: update_fresh_entries)

subsection \<open>While the request is outstanding, and afterwards\<close>

lemma inv_during_settle:
  "inv_during h rid w \<Longrightarrow> inv_during h rid (settle h' s w)"
  by (auto simp: inv_during_def)

lemma inv_during_settle_delete:
  assumes "inv_during h rid w"
    and "k = rid \<Longrightarrow> promises w h = Some None \<Longrightarrow> h' = h"
  shows "inv_during h rid
           ((settle h' s w)\<lparr>pendingRequests := AList.delete k (pendingRequests w)\<rparr>)"
  using assms by (auto simp: inv_during_def set_delete)

lemma inv_during_delete_settle:
  assumes "inv_during h rid w"
    and "k = rid \<Longrightarrow> promises w h = Some None \<Longrightarrow> h' = h"
  shows "inv_during h rid
           (settle h' s (w\<lparr>pendingRequests := AList.delete k (pendingRequests w)\<rparr>))"
  using assms by (auto simp: inv_during_def set_delete)

lemma inv_during_entry:
  "inv_during h rid w \<Longrightarrow> (rid, e) \<in> set (pendingRequests w) \<Longrightarrow> promises w h = Some None
     \<Longrightarrow> p_handle e = h"
  by (auto simp: inv_during_def)

lemma inv_during_answer:
  assumes "inv_during h rid w" and "pending_get w v = Some e"
  shows "inv_during h rid (pending_delete v (settle (p_handle e) s w))"
proof -
  from pending_get_SomeD [OF assms(2)] obtain k where
    v: "v = Some (JStr k)" and mem: "(k, e) \<in> set (pendingRequests w)" by blast
  have "inv_during h rid
          ((settle (p_handle e) s w)\<lparr>pendingRequests := AList.delete k (pendingRequests w)\<rparr>)"
    using assms(1) mem by (intro inv_during_settle_delete) (auto dest: inv_during_entry)
  then show ?thesis by (simp add: v pending_delete_def)
qed

lemma inv_during_expire:
  assumes "inv_during h rid w"
    and "promises w h = Some None \<Longrightarrow> \<forall>(k, e) \<in> set es. k = rid \<longrightarrow> p_handle e = h"
  shows "inv_during h rid (expire_entries now t es w)"
  using assms
proof (induction es arbitrary: w)
  case Nil
  then show ?case by simp
next
  case (Cons a es)
  obtain k e where a: "a = (k, e)" by (cases a)
  let ?w = "(settle (p_handle e) (Rejected RequestExpired) w)
               \<lparr>pendingRequests := AList.delete k (pendingRequests w)\<rparr>"
  have 1: "inv_during h rid ?w"
    using Cons.prems a by (intro inv_during_settle_delete) auto
  have 2: "promises ?w h = Some None \<Longrightarrow> \<forall>(k, e) \<in> set es. k = rid \<longrightarrow> p_handle e = h"
    using Cons.prems(2) by (auto split: if_splits)
  have 3: "promises w h = Some None \<Longrightarrow> \<forall>(k, e) \<in> set es. k = rid \<longrightarrow> p_handle e = h"
    using Cons.prems(2) by auto
  show ?case
    using Cons.IH [OF 1 2] Cons.IH [OF Cons.prems(1) 3] by (simp add: a)
qed

lemma inv_during_step:
  assumes "inv_during h rid w" and "foreign_to h rid ev"
  shows "inv_during h rid (ws_step parse t w ev)"
proof (cases ev)
  case (Submit h' rid' now data platform)
  with assms have ne: "h' \<noteq> h" "rid' \<noteq> rid" by (simp_all add: foreign_to_def)
  let ?w1 = "w\<lparr>promises := (promises w)(h' \<mapsto> None),
                 pendingRequests := AList.update rid'
                    \<lparr>p_id = rid', p_handle = h', p_timestamp = now\<rparr> (pendingRequests w)\<rparr>"
  have "inv_during h rid ?w1"
    using assms(1) ne by (auto simp: inv_during_def keys_update dest!: set_update_subset)
  then show ?thesis
    by (auto simp: Submit processRequest_def Let_def inv_during_settle)
      (auto simp: inv_during_def)
next
  case (ConnectFailed h')
  with assms have ne: "h' \<noteq> h" by (simp add: foreign_to_def)
  have "inv_during h rid (w\<lparr>promises := (promises w)(h' \<mapsto> None)\<rparr>)"
    using assms(1) ne by (auto simp: inv_during_def)
  then show ?thesis
    by (simp add: ConnectFailed processRequest_no_connection_def inv_during_settle)
next
  case (Incoming d)
  have "inv_during h rid (handle_response m ty w')" if "inv_during h rid w'" for m ty w'
    using that by (auto simp: handle_response_def inv_during_answer split: option.splits)
  moreover have "inv_during h rid (handle_error m ty w')" if "inv_during h rid w'" for m ty w'
    using that by (auto simp: handle_error_def inv_during_answer split: option.splits)
  ultimately show ?thesis using assms Incoming
    by (auto simp: handleMessage_def split: option.splits sum.splits)
next
  case (RequestTimeout h' rid')
  with assms have own: "(rid' = rid) = (h' = h)" by (simp add: foreign_to_def)
  show ?thesis
    using assms(1) own
    by (auto simp: RequestTimeout request_timeout_def intro!: inv_during_delete_settle)
next
  case (Cleanup now)
  show ?thesis
    using assms(1)
    by (auto simp: Cleanup cleanupExpiredRequests_def intro!: inv_during_expire dest: inv_during_entry)
next
  case SocketOpened
  with assms show ?thesis by (simp add: inv_during_def)
next
  case SocketClosed
  with assms show ?thesis by (simp add: inv_during_def)
qed

lemma inv_during_run:
  "inv_during h rid w \<Longrightarrow> list_all (foreign_to h rid) evs \<Longrightarrow>
     inv_during h rid (ws_run parse t w evs)"
  unfolding ws_run_def by (induction evs arbitrary: w) (simp_all add: inv_during_step)

lemma timeout_settles:
  assumes "inv_during h rid w"
  shows "inv_after h (request_timeout h rid w)"
proof (cases "promises w h = Some None")
  case True
  with assms have "rid \<in> fst ` set (pendingRequests w)" by (simp add: inv_during_def)
  then have "map_of (pendingRequests w) rid \<noteq> None"
    by (metis domIff dom_map_of_conv_image_fst)
  then show ?thesis using assms True
    by (simp add: request_timeout_def inv_after_def inv_during_def)
next
  case False
  with assms show ?thesis
    by (auto simp: request_timeout_def inv_after_def inv_during_def)
qed

lemma inv_after_during: "inv_after h w \<Longrightarrow> inv_during h rid w"
  by (auto simp: inv_after_def inv_during_def)

lemma inv_during_settled_after:
  "inv_during h rid w \<Longrightarrow> promises w h \<noteq> Some None \<Longrightarrow> inv_after h w"
  by (auto simp: inv_after_def inv_during_def)

lemma settled_stays:
  assumes "promises w h \<noteq> None" "promises w h \<noteq> Some None" and "foreign_to h rid ev"
  shows "promises (ws_step parse t w ev) h = promises w h"
proof (cases ev)
  case (Incoming d)
  have "promises (handle_response m ty w') h = promises w' h" if "promises w' h \<noteq> Some None" for m ty w'
    using that by (auto simp: handle_response_def split: option.splits)
  moreover have "promises (handle_error m ty w') h = promises w' h" if "promises w' h \<noteq> Some None" for m ty w'
    using that by (auto simp: handle_error_def split: option.splits)
  ultimately show ?thesis using assms Incoming
    by (auto simp: handleMessage_def split: option.splits sum.splits)
next
  case (Cleanup now)
  have "promises (expire_entries now t es w') h = promises w' h" if "promises w' h \<noteq> Some None" for es w'
    using that by (induction es arbitrary: w') auto
  then show ?thesis using assms Cleanup by (simp add: cleanupExpiredRequests_def)
qed (use assms in \<open>auto simp: foreign_to_def processRequest_def Let_def sendMessage_def
       processRequest_no_connection_def request_timeout_def\<close>)

lemma inv_after_step:
  assumes "inv_after h w" and "foreign_to h rid ev"
  shows "inv_after h (ws_step parse t w ev)"
proof -
  have "inv_during h rid (ws_step parse t w ev)"
    using assms by (intro inv_during_step inv_after_during)
  moreover have "promises (ws_step parse t w ev) h = promises w h"
    using assms by (intro settled_stays) (auto simp: inv_after_def)
  ultimately show ?thesis using assms(1)
    by (intro inv_during_settled_after) (auto simp: inv_after_def)
qed

lemma inv_after_run:
  "inv_after h w \<Longrightarrow> list_all (foreign_to h rid) evs \<Longrightarrow> inv_after h (ws_run parse t w evs)"
  unfolding ws_run_def
  by (induction evs arbitrary: w) (auto intro: inv_after_step [where rid = rid])

lemma ws_run_append: "ws_run parse t w (xs @ ys) = ws_run parse t (ws_run parse t w xs) ys"
  by (simp add: ws_run_def)

lemma ws_run_Cons: "ws_run parse t w (x # xs) = ws_run parse t (ws_step parse t w x) xs"
  by (simp add: ws_run_def)

lemma request_settled_once:
  assumes "list_all (foreign_to h rid) (pre @ mid @ post)"
  shows "inv_after h (ws_run parse t (ws_initial uid)
           (pre @ Submit h rid now data platform # mid @ RequestTimeout h rid # post))"
proof -
  from assms have f: "list_all (foreign_to h rid) pre" "list_all (foreign_to h rid) mid"
    "list_all (foreign_to h rid) post" by simp_all
  let ?w1 = "ws_run parse t (ws_initial uid) pre"
  let ?w2 = "processRequest h rid now data platform ?w1"
  let ?w3 = "ws_run parse t ?w2 mid"
  let ?w4 = "request_timeout h rid ?w3"
  have "inv_before h rid ?w1" by (intro inv_before_run inv_before_initial f)
  then have "inv_during h rid ?w2" by (rule submit_establishes)
  then have "inv_during h rid ?w3" by (intro inv_during_run f)
  then have "inv_after h ?w4" by (rule timeout_settles)
  then have "inv_after h (ws_run parse t ?w4 post)"
    using f(3) by (rule inv_after_run)
  then show ?thesis by (simp add: ws_run_append ws_run_Cons)
qed

lemma message_other_id:
  assumes "parse d = Some message"
    and "map_of (pendingRequests w) y = Some e"
    and "own_prop message ''requestId'' \<noteq> Some (JStr y)"
    and "\<forall>(k, e') \<in> set (pendingRequests w). k \<noteq> y \<longrightarrow> p_handle e' \<noteq> p_handle e"
  shows "promises (handleMessage parse d w) (p_handle e) = promises w (p_handle e)
       \<and> call_count (p_handle e) (handleMessage parse d w) = call_count (p_handle e) w
       \<and> map_of (pendingRequests (handleMessage parse d w)) y = Some e"
proof -
  have keep: "promises (pending_delete v (settle (p_handle e') s w')) (p_handle e) = promises w' (p_handle e)
       \<and> call_count (p_handle e) (pending_delete v (settle (p_handle e') s w'))
           = call_count (p_handle e) w'
       \<and> map_of (pendingRequests (pending_delete v (settle (p_handle e') s w'))) y = Some e
       \<and> (\<forall>(k, e') \<in> set (pendingRequests (pending_delete v (settle (p_handle e') s w'))).
             k \<noteq> y \<longrightarrow> p_handle e' \<noteq> p_handle e)"
    if "pending_get w' v = Some e'" "v \<noteq> Some (JStr y)"
      "map_of (pendingRequests w') y = Some e"
      "\<forall>(k, e') \<in> set (pendingRequests w'). k \<noteq> y \<longrightarrow> p_handle e' \<noteq> p_handle e"
    for v e' s w'
  proof -
    from pending_get_SomeD [OF that(1)] obtain k where
      v: "v = Some (JStr k)" and mem: "(k, e') \<in> set (pendingRequests w')" by blast
    from v that(2) have ky: "k \<noteq> y" by simp
    with mem that(4) have "p_handle e' \<noteq> p_handle e" by auto
    then show ?thesis using that(3,4) ky
      by (auto simp: v pending_delete_def delete_conv' set_delete)
  qed
  let ?v = "own_prop message ''requestId''"
  define P where "P w' \<longleftrightarrow> map_of (pendingRequests w') y = Some e
       \<and> promises w' (p_handle e) = promises w (p_handle e)
       \<and> call_count (p_handle e) w' = call_count (p_handle e) w
       \<and> (\<forall>(k, e') \<in> set (pendingRequests w'). k \<noteq> y \<longrightarrow> p_handle e' \<noteq> p_handle e)" for w' :: ws_connector
  have P0: "P w" using assms by (simp add: P_def)
  have P1: "P (handle_response message ty w')" if "P w'" for ty w'
    using that keep [of w' ?v _ _] assms(3)
    by (auto simp: P_def handle_response_def split: option.splits)
  have P2: "P (handle_error message ty w')" if "P w'" for ty w'
    using that keep [of w' ?v _ _] assms(3)
    by (auto simp: P_def handle_error_def split: option.splits)
  have "P (handleMessage parse d w)"
    using P0 P1 P2 assms(1) by (auto simp: handleMessage_def split: sum.splits)
  then show ?thesis by (simp add: P_def)
qed

lemma message_unknown_id_dropped:
  assumes "parse d = Some message" and "pending_get w (own_prop message ''requestId'') = None"
  shows "handleMessage parse d w = w"
  using assms
  by (auto simp: handleMessage_def handle_response_def handle_error_def split: sum.splits)

subsection \<open>The calls of \<open>resolve\<close> and \<open>reject\<close> of one request\<close>

lemma calls_before_remove:
  assumes "calls_before h rid w" and "h' \<noteq> h"
  shows "calls_before h rid
           ((settle h' s w)\<lparr>pendingRequests := AList.delete k (pendingRequests w)\<rparr>)"
  using assms by (auto simp: calls_before_def set_delete distinct_delete)

lemma calls_before_entry:
  "calls_before h rid w \<Longrightarrow> (k, e) \<in> set (pendingRequests w) \<Longrightarrow> p_handle e \<noteq> h"
  by (auto simp: calls_before_def)

lemma calls_before_answer:
  assumes "calls_before h rid w" and "pending_get w v = Some e"
  shows "calls_before h rid (pending_delete v (settle (p_handle e) s w))"
proof -
  from pending_get_SomeD [OF assms(2)] obtain k where
    v: "v = Some (JStr k)" and mem: "(k, e) \<in> set (pendingRequests w)" by blast
  have "calls_before h rid
          ((settle (p_handle e) s w)\<lparr>pendingRequests := AList.delete k (pendingRequests w)\<rparr>)"
    using assms(1) mem by (intro calls_before_remove) (auto dest: calls_before_entry)
  then show ?thesis by (simp add: v pending_delete_def)
qed

lemma calls_before_expire:
  assumes "calls_before h rid w" and "\<forall>(k, e) \<in> set es. p_handle e \<noteq> h"
  shows "calls_before h rid (expire_entries now t es w)"
  using assms
proof (induction es arbitrary: w)
  case Nil
  then show ?case by simp
next
  case (Cons a es)
  obtain k e where a: "a = (k, e)" by (cases a)
  from Cons.prems(2) a have ne: "p_handle e \<noteq> h" and rest: "\<forall>(k, e) \<in> set es. p_handle e \<noteq> h"
    by auto
  have "calls_before h rid ((settle (p_handle e) (Rejected RequestExpired) w)
               \<lparr>pendingRequests := AList.delete k (pendingRequests w)\<rparr>)"
    using Cons.prems(1) ne by (rule calls_before_remove)
  then show ?case
    using Cons.IH [OF _ rest] Cons.prems(1) by (simp add: a)
qed

lemma calls_before_step:
  assumes "calls_before h rid w" and "foreign_to h rid ev"
  shows "calls_before h rid (ws_step parse t w ev)"
proof (cases ev)
  case (Submit h' rid' now data platform)
  with assms show ?thesis
    by (auto simp: foreign_to_def processRequest_def Let_def calls_before_def keys_update
        distinct_update dest!: set_update_subset)
next
  case (ConnectFailed h')
  with assms show ?thesis
    by (auto simp: foreign_to_def processRequest_no_connection_def calls_before_def)
next
  case (Incoming d)
  have "calls_before h rid (handle_response m ty w')" if "calls_before h rid w'" for m ty w'
    using that by (auto simp: handle_response_def calls_before_answer split: option.splits)
  moreover have "calls_before h rid (handle_error m ty w')" if "calls_before h rid w'" for m ty w'
    using that by (auto simp: handle_error_def calls_before_answer split: option.splits)
  ultimately show ?thesis using assms Incoming
    by (auto simp: handleMessage_def split: option.splits sum.splits)
next
  case (RequestTimeout h' rid')
  with assms have own: "(rid' = rid) = (h' = h)" by (simp add: foreign_to_def)
  show ?thesis
  proof (cases "map_of (pendingRequests w) rid'")
    case None
    with assms(1) show ?thesis by (simp add: RequestTimeout request_timeout_def)
  next
    case (Some e)
    then have "rid' \<in> fst ` set (pendingRequests w)"
      by (metis domI dom_map_of_conv_image_fst)
    with assms(1) own have "h' \<noteq> h" by (auto simp: calls_before_def)
    with assms(1) Some show ?thesis
      by (simp add: RequestTimeout request_timeout_def settle_pending_update calls_before_remove)
  qed
next
  case (Cleanup now)
  with assms show ?thesis
    by (auto simp: cleanupExpiredRequests_def intro!: calls_before_expire dest: calls_before_entry)
next
  case SocketOpened
  with assms show ?thesis by (simp add: calls_before_def)
next
  case SocketClosed
  with assms show ?thesis by (simp add: calls_before_def)
qed

lemma calls_before_run:
  "calls_before h rid w \<Longrightarrow> list_all (foreign_to h rid) evs \<Longrightarrow>
     calls_before h rid (ws_run parse t w evs)"
  unfolding ws_run_def by (induction evs arbitrary: w) (simp_all add: calls_before_step)

lemma calls_before_initial: "calls_before h rid (ws_initial uid)"
  by (simp add: calls_before_def ws_initial_def call_count_def)

lemma submit_calls:
  assumes "calls_before h rid w"
  shows "calls_during (if isConnected w then 0 else 1) h rid
           (processRequest h rid now data platform w)"
proof -
  let ?e = "\<lparr>p_id = rid, p_handle = h, p_timestamp = now\<rparr>"
  let ?p = "AList.update rid ?e (pendingRequests w)"
  have d: "distinct (map fst ?p)"
    using assms by (simp add: calls_before_def distinct_update)
  have b: "\<forall>(k, e) \<in> set ?p. (k = rid) = (p_handle e = h)"
    using assms by (auto simp: calls_before_def dest!: set_update_subset dest: entry_key)
  have k: "rid \<in> fst ` set ?p" by (simp add: keys_update)
  have c: "call_count h w = 0" using assms by (simp add: calls_before_def)
  show ?thesis
    using d b k c by (simp add: calls_during_def processRequest_def Let_def)
qed

lemma calls_during_remove:
  assumes "calls_during c h rid w" and "k \<in> fst ` set (pendingRequests w)"
    and "(k = rid) = (h' = h)"
  shows "calls_during c h rid
           ((settle h' s w)\<lparr>pendingRequests := AList.delete k (pendingRequests w)\<rparr>)"
  using assms by (auto simp: calls_during_def set_delete keys_delete distinct_delete)

lemma calls_during_entry:
  "calls_during c h rid w \<Longrightarrow> (k, e) \<in> set (pendingRequests w) \<Longrightarrow> (k = rid) = (p_handle e = h)"
  by (auto simp: calls_during_def)

lemma calls_during_answer:
  assumes "calls_during c h rid w" and "pending_get w v = Some e"
  shows "calls_during c h rid (pending_delete v (settle (p_handle e) s w))"
proof -
  from pending_get_SomeD [OF assms(2)] obtain k where
    v: "v = Some (JStr k)" and mem: "(k, e) \<in> set (pendingRequests w)" by blast
  have "calls_during c h rid
          ((settle (p_handle e) s w)\<lparr>pendingRequests := AList.delete k (pendingRequests w)\<rparr>)"
    using assms(1) mem by (intro calls_during_remove) (auto dest: calls_during_entry entry_key)
  then show ?thesis by (simp add: v pending_delete_def)
qed

lemma calls_during_expire:
  assumes "calls_during c h rid w" and "set es \<subseteq> set (pendingRequests w)"
    and "distinct (map fst es)"
  shows "calls_during c h rid (expire_entries now t es w)"
  using assms
proof (induction es arbitrary: w)
  case Nil
  then show ?case by simp
next
  case (Cons a es)
  obtain k e where a: "a = (k, e)" by (cases a)
  let ?w = "(settle (p_handle e) (Rejected RequestExpired) w)
               \<lparr>pendingRequests := AList.delete k (pendingRequests w)\<rparr>"
  from Cons.prems(2) a have mem: "(k, e) \<in> set (pendingRequests w)" by simp
  have 1: "calls_during c h rid ?w"
    using Cons.prems(1) mem by (intro calls_during_remove) (auto dest: calls_during_entry entry_key)
  have 2: "set es \<subseteq> set (pendingRequests ?w)"
    using Cons.prems(2,3) a by (auto simp: set_delete)
  have 3: "set es \<subseteq> set (pendingRequests w)" "distinct (map fst es)"
    using Cons.prems(2,3) by simp_all
  show ?case
    using Cons.IH [OF 1 2 3(2)] Cons.IH [OF Cons.prems(1) 3] by (simp add: a)
qed

lemma calls_during_step:
  assumes "calls_during c h rid w" and "foreign_to h rid ev"
  shows "calls_during c h rid (ws_step parse t w ev)"
proof (cases ev)
  case (Submit h' rid' now data platform)
  with assms show ?thesis
    by (auto simp: foreign_to_def processRequest_def Let_def calls_during_def keys_update
        distinct_update dest!: set_update_subset)
next
  case (ConnectFailed h')
  with assms show ?thesis
    by (auto simp: foreign_to_def processRequest_no_connection_def calls_during_def)
next
  case (Incoming d)
  have "calls_during c h rid (handle_response m ty w')" if "calls_during c h rid w'" for m ty w'
    using that by (auto simp: handle_response_def calls_during_answer split: option.splits)
  moreover have "calls_during c h rid (handle_error m ty w')" if "calls_during c h rid w'" for m ty w'
    using that by (auto simp: handle_error_def calls_during_answer split: option.splits)
  ultimately show ?thesis using assms Incoming
    by (auto simp: handleMessage_def split: option.splits sum.splits)
next
  case (RequestTimeout h' rid')
  with assms have own: "(rid' = rid) = (h' = h)" by (simp add: foreign_to_def)
  show ?thesis
  proof (cases "map_of (pendingRequests w) rid'")
    case None
    with assms(1) show ?thesis by (simp add: RequestTimeout request_timeout_def)
  next
    case (Some e)
    then have "rid' \<in> fst ` set (pendingRequests w)"
      by (metis domI dom_map_of_conv_image_fst)
    with assms(1) own Some show ?thesis
      by (simp add: RequestTimeout request_timeout_def settle_pending_update calls_during_remove)
  qed
next
  case (Cleanup now)
  have "distinct (map fst (pendingRequests w))"
    using assms(1) by (simp add: calls_during_def)
  then show ?thesis
    by (simp add: Cleanup cleanupExpiredRequests_def calls_during_expire [OF assms(1)])
next
  case SocketOpened
  with assms show ?thesis by (simp add: calls_during_def)
next
  case SocketClosed
  with assms show ?thesis by (simp add: calls_during_def)
qed

lemma calls_during_run:
  "calls_during c h rid w \<Longrightarrow> list_all (foreign_to h rid) evs \<Longrightarrow>
     calls_during c h rid (ws_run parse t w evs)"
  unfolding ws_run_def by (induction evs arbitrary: w) (simp_all add: calls_during_step)

lemma timeout_deletes:
  assumes "calls_during c h rid w"
  shows "calls_after c h rid (request_timeout h rid w)"
proof -
  have "calls_during c h rid (request_timeout h rid w)"
    using calls_during_step [OF assms, of "RequestTimeout h rid"] by (simp add: foreign_to_def)
  moreover have "rid \<notin> fst ` set (pendingRequests (request_timeout h rid w))"
  proof (cases "map_of (pendingRequests w) rid")
    case None
    then show ?thesis by (simp add: request_timeout_def map_of_eq_None_iff)
  next
    case (Some e)
    then show ?thesis by (simp add: request_timeout_def keys_delete)
  qed
  ultimately show ?thesis by (simp add: calls_after_def)
qed

lemma expire_keys:
  "fst ` set (pendingRequests (expire_entries now t es w)) \<subseteq> fst ` set (pendingRequests w)"
proof (induction es arbitrary: w)
  case Nil
  then show ?case by simp
next
  case (Cons a es)
  obtain k e where a: "a = (k, e)" by (cases a)
  let ?w = "(settle (p_handle e) (Rejected RequestExpired) w)
               \<lparr>pendingRequests := AList.delete k (pendingRequests w)\<rparr>"
  have "fst ` set (pendingRequests (expire_entries now t es ?w)) \<subseteq> fst ` set (pendingRequests w)"
    using Cons.IH [of ?w] by (simp add: keys_delete) blast
  then show ?case using Cons.IH [of w] by (simp add: a)
qed

lemma answer_keys:
  "fst ` set (pendingRequests (pending_delete v (settle h s w))) \<subseteq> fst ` set (pendingRequests w)"
  by (simp add: pending_delete_def keys_delete split: option.splits json.splits)

lemma handle_response_keys:
  "fst ` set (pendingRequests (handle_response m ty w)) \<subseteq> fst ` set (pendingRequests w)"
  by (simp add: handle_response_def answer_keys split: option.splits)

lemma handle_error_keys:
  "fst ` set (pendingRequests (handle_error m ty w)) \<subseteq> fst ` set (pendingRequests w)"
  by (simp add: handle_error_def answer_keys split: option.splits)

lemma handleMessage_keys:
  "fst ` set (pendingRequests (handleMessage parse d w)) \<subseteq> fst ` set (pendingRequests w)"
proof (cases "parse d")
  case None
  then show ?thesis by (simp add: handleMessage_def)
next
  case (Some m)
  show ?thesis
  proof (cases "getProp (Some m) ''type''")
    case (Inl e)
    with Some show ?thesis by (simp add: handleMessage_def)
  next
    case (Inr ty)
    with Some have "handleMessage parse d w = handle_error m ty (handle_response m ty w)"
      by (simp add: handleMessage_def)
    with order_trans [OF handle_error_keys handle_response_keys, of m ty m ty w]
    show ?thesis by simp
  qed
qed

lemma absent_stays:
  assumes "rid \<notin> fst ` set (pendingRequests w)" and "foreign_to h rid ev"
  shows "rid \<notin> fst ` set (pendingRequests (ws_step parse t w ev))"
proof (cases ev)
  case (Submit h' rid' now data platform)
  with assms show ?thesis
    by (auto simp: foreign_to_def processRequest_def Let_def keys_update)
next
  case (ConnectFailed h')
  with assms show ?thesis by (simp add: processRequest_no_connection_def)
next
  case (Incoming d)
  with assms(1) handleMessage_keys [of parse d w] show ?thesis by auto
next
  case (RequestTimeout h' rid')
  with assms(1) show ?thesis by (simp add: request_timeout_def keys_delete)
next
  case (Cleanup now)
  with assms(1) expire_keys [of now t "pendingRequests w" w] show ?thesis
    by (auto simp: cleanupExpiredRequests_def)
next
  case SocketOpened
  with assms show ?thesis by simp
next
  case SocketClosed
  with assms show ?thesis by simp
qed

lemma calls_after_run:
  "calls_after c h rid w \<Longrightarrow> list_all (foreign_to h rid) evs \<Longrightarrow>
     calls_after c h rid (ws_run parse t w evs)"
proof (induction evs arbitrary: w)
  case Nil
  then show ?case by (simp add: ws_run_def)
next
  case (Cons ev evs)
  from Cons.prems have f: "foreign_to h rid ev" "list_all (foreign_to h rid) evs" by simp_all
  from Cons.prems(1) have "calls_after c h rid (ws_step parse t w ev)"
    unfolding calls_after_def
    using calls_during_step [OF _ f(1)] absent_stays [OF _ f(1)] by blast
  from Cons.IH [OF this f(2)] show ?case by (simp add: ws_run_def)
qed

lemma request_calls:
  assumes "list_all (foreign_to h rid) (pre @ mid @ post)"
  shows "calls_after (if isConnected (ws_run parse t (ws_initial uid) pre) then 0 else 1) h rid
           (ws_run parse t (ws_initial uid)
              (pre @ Submit h rid now data platform # mid @ RequestTimeout h rid # post))"
proof -
  from assms have f: "list_all (foreign_to h rid) pre" "list_all (foreign_to h rid) mid"
    "list_all (foreign_to h rid) post" by simp_all
  let ?w1 = "ws_run parse t (ws_initial uid) pre"
  let ?c = "if isConnected ?w1 then 0 else 1 :: nat"
  let ?w2 = "processRequest h rid now data platform ?w1"
  let ?w3 = "ws_run parse t ?w2 mid"
  let ?w4 = "request_timeout h rid ?w3"
  have "calls_before h rid ?w1" by (intro calls_before_run calls_before_initial f)
  then have "calls_during ?c h rid ?w2" by (rule submit_calls)
  then have "calls_during ?c h rid ?w3" by (intro calls_during_run f)
  then have "calls_after ?c h rid ?w4" by (rule timeout_deletes)
  then have "calls_after ?c h rid (ws_run parse t ?w4 post)"
    using f(3) by (rule calls_after_run)
  then show ?thesis by (simp add: ws_run_append ws_run_Cons)
qed

text \<open>
  C4 does not hold of the code. Take a request submitted with a handle and a generated id
  that no other call uses, whose timer fires at some point, and any course of the other
  events (other requests, messages, timers, cleanups, socket changes). When the connector
  is connected at the submission, \<open>resolve\<close> or \<open>reject\<close> of the entry is called
  exactly once, by the path that deletes the entry. When it is not connected, the executor
  stores the entry, calls \<open>reject\<close> and leaves the entry in the map; whatever deletes the
  entry later, a message with its id, the cleanup or at the latest its own timer, calls
  \<open>resolve\<close> or \<open>reject\<close> of the same entry a second time: the entry is settled
  twice. The promise keeps its first settlement, so the caller still sees exactly one.
\<close>

theorem ws_entry_settled_twice_when_not_connected:
  assumes "list_all (foreign_to h rid) (pre @ mid @ post)"
  shows "call_count h (ws_run parse t (ws_initial uid)
           (pre @ Submit h rid now data platform # mid @ RequestTimeout h rid # post))
           = (if isConnected (ws_run parse t (ws_initial uid) pre) then 1 else 2)
       \<and> settle_count h (ws_run parse t (ws_initial uid)
           (pre @ Submit h rid now data platform # mid @ RequestTimeout h rid # post)) = 1"
  using request_calls [OF assms, of parse t uid now data platform]
    request_settled_once [OF assms, of parse t uid now data platform]
  by (auto simp: calls_after_def calls_during_def inv_after_def)

theorem ws_entry_settled_twice_when_not_connected_witness:
  "list_all (foreign_to 0 ''req_a'') ([SocketOpened, SocketClosed] @ [] @ [])
   \<and> \<not> isConnected (ws_run (\<lambda>s. None) 60000 (ws_initial ''user'') [SocketOpened, SocketClosed])
   \<and> map_of (pendingRequests (ws_run (\<lambda>s. None) 60000 (ws_initial ''user'')
        [SocketOpened, SocketClosed, Submit 0 ''req_a'' 5 ws_example_data ''reddit''])) ''req_a''
       = Some \<lparr>p_id = ''req_a'', p_handle = 0, p_timestamp = 5\<rparr>
   \<and> settle_calls (ws_run (\<lambda>s. None) 60000 (ws_initial ''user'')
        [SocketOpened, SocketClosed, Submit 0 ''req_a'' 5 ws_example_data ''reddit''])
       = [(0, Rejected NotConnected)]
   \<and> settle_calls (ws_run (\<lambda>s. None) 60000 (ws_initial ''user'')
        [SocketOpened, SocketClosed, Submit 0 ''req_a'' 5 ws_example_data ''reddit'',
         RequestTimeout 0 ''req_a''])
       = [(0, Rejected NotConnected), (0, Rejected RequestTimedOut)]
   \<and> call_count 0 (ws_run (\<lambda>s. None) 60000 (ws_initial ''user'')
        ([SocketOpened, SocketClosed] @ Submit 0 ''req_a'' 5 ws_example_data ''reddit''
           # [] @ RequestTimeout 0 ''req_a'' # [])) = 2
   \<and> settle_count 0 (ws_run (\<lambda>s. None) 60000 (ws_initial ''user'')
        ([SocketOpened, SocketClosed] @ Submit 0 ''req_a'' 5 ws_example_data ''reddit''
           # [] @ RequestTimeout 0 ''req_a'' # [])) = 1"
proof -
  have h1: "list_all (foreign_to 0 ''req_a'') ([SocketOpened, SocketClosed] @ [] @ [])"
    by (simp add: foreign_to_def)
  have h2: "\<not> isConnected (ws_run (\<lambda>s. None) 60000 (ws_initial ''user'') [SocketOpened, SocketClosed])"
    by (simp add: ws_run_def)
  have h3: "ws_run (\<lambda>s. None) 60000 (ws_initial ''user'')
        [SocketOpened, SocketClosed, Submit 0 ''req_a'' 5 ws_example_data ''reddit'']
      = \<lparr>pendingRequests = [(''req_a'', \<lparr>p_id = ''req_a'', p_handle = 0, p_timestamp = 5\<rparr>)],
         isConnected = False, ws_open = False, ws_userId = ''user'', ws_sent = [],
         promises = [0 \<mapsto> Some (Rejected NotConnected)],
         settle_calls = [(0, Rejected NotConnected)],
         settlements = [(0, Rejected NotConnected)]\<rparr>"
    by (simp add: ws_run_def ws_initial_def processRequest_def Let_def settle_def)
  have h4: "settle_calls (ws_run (\<lambda>s. None) 60000 (ws_initial ''user'')
        [SocketOpened, SocketClosed, Submit 0 ''req_a'' 5 ws_example_data ''reddit'',
         RequestTimeout 0 ''req_a''])
       = [(0, Rejected NotConnected), (0, Rejected RequestTimedOut)]"
    using h3 by (simp add: ws_run_def request_timeout_def Let_def settle_def)
  show ?thesis
    using h1 h2 h3 h4
      ws_entry_settled_twice_when_not_connected [where pre = "[SocketOpened, SocketClosed]"
        and mid = "[]" and post = "[]" and h = 0 and rid = "''req_a''" and t = 60000
        and uid = "''user''" and now = 5 and data = ws_example_data and platform = "''reddit''"
        and parse = "\<lambda>s. None", OF h1]
    by simp
qed




section \<open>Properties of the Reddit adapter\<close>

lemma map_filter_update:
  assumes "case map_of kvs k of None \<Rightarrow> f (k, v) = None | Some v0 \<Rightarrow> f (k, v) = f (k, v0)"
  shows "List.map_filter f (AList.update k v kvs) = List.map_filter f kvs"
  using assms
  by (induction kvs) (auto simp: List.map_filter_simps split: option.splits)

lemma setProp_within:
  assumes "setProp obj k v = Inr obj'"
    and "case own_prop obj k of None \<Rightarrow> g k v = None | Some v0 \<Rightarrow> g k v = g k v0"
  shows "within g obj' = within g obj"
proof (cases obj)
  case (JObj kvs)
  with assms show ?thesis
    by (auto simp: within_def intro!: map_filter_update split: option.splits)
qed (use assms in auto)

lemma setProp_without:
  "setProp obj k v = Inr obj' \<Longrightarrow> without k obj' = without k obj"
  unfolding without_def by (erule setProp_within) (simp split: option.splits)

lemma setProp_at_member:
  "setProp obj k v = Inr obj' \<Longrightarrow> own_prop obj k = Some v0 \<Longrightarrow> f v = f v0
     \<Longrightarrow> at_member k f obj' = at_member k f obj"
  unfolding at_member_def by (erule setProp_within) simp

lemma own_prop_within:
  assumes "\<And>x. g k x = Some x"
  shows "own_prop (within g obj) k = own_prop obj k"
proof (cases obj)
  case (JObj kvs)
  have "map_of (List.map_filter (\<lambda>(k, x). map_option (Pair k) (g k x)) kvs) k = map_of kvs k"
    by (induction kvs) (auto simp: List.map_filter_simps assms split: option.splits)
  then show ?thesis by (simp add: JObj within_def)
qed (simp_all add: within_def)

lemma traverse_map:
  assumes "traverse f xs = Inr ys" and "\<And>x y. x \<in> set xs \<Longrightarrow> f x = Inr y \<Longrightarrow> E y = E x"
  shows "map E ys = map E xs"
  using assms
  by (induction xs arbitrary: ys) (auto split: sum.splits)

lemma and_then_Inr:
  "and_then m f = Inr y \<longleftrightarrow> (\<exists>x. m = Inr x \<and> f x = Inr y)"
  by (cases m) (simp_all add: and_then_def)

lemma setProp2_blank_image:
  assumes "setProp2 im ''source'' ''url'' v = Inr im1"
  shows "blank_image im1 = blank_image im"
proof -
  from assms obtain s s' where s: "own_prop im ''source'' = Some s"
    and s': "setProp s ''url'' v = Inr s'" and im1: "setProp im ''source'' s' = Inr im1"
    by (auto simp: setProp2_def and_then_Inr split: option.splits)
  have "without ''url'' s' = without ''url'' s" using s' by (rule setProp_without)
  then show ?thesis
    unfolding blank_image_def using s by (intro setProp_within [OF im1]) simp
qed

lemma update_resolutions_blank_image:
  assumes "update_resolutions v im = Inr im1"
  shows "blank_image im1 = blank_image im"
proof (cases "\<exists>rs. own_prop im ''resolutions'' = Some (JArr rs)")
  case False
  with assms show ?thesis
    by (auto simp: update_resolutions_def split: option.splits json.splits)
next
  case True
  then obtain rs where rs: "own_prop im ''resolutions'' = Some (JArr rs)" by blast
  with assms obtain rs' where t: "traverse (\<lambda>resolution. setProp resolution ''url'' v) rs = Inr rs'"
    and im1: "setProp im ''resolutions'' (JArr rs') = Inr im1"
    by (auto simp: update_resolutions_def and_then_Inr)
  have "map (without ''url'') rs' = map (without ''url'') rs"
    using t by (rule traverse_map) (rule setProp_without)
  then show ?thesis
    unfolding blank_image_def using rs by (intro setProp_within [OF im1]) (simp add: each_def)
qed

lemma update_images_blank:
  "update_images urls i ims = Inr ims' \<Longrightarrow> map blank_image ims' = map blank_image ims"
proof (induction ims arbitrary: i ims')
  case Nil
  then show ?case by simp
next
  case (Cons im ims)
  then show ?case
    by (auto simp: and_then_Inr split: if_splits
        dest!: setProp2_blank_image update_resolutions_blank_image)
qed

lemma setProp2_blank_media:
  assumes "setProp2 media ''s'' ''u'' v = Inr media1"
  shows "blank_media media1 = blank_media media"
proof -
  from assms obtain s s' where s: "own_prop media ''s'' = Some s"
    and s': "setProp s ''u'' v = Inr s'" and m1: "setProp media ''s'' s' = Inr media1"
    by (auto simp: setProp2_def and_then_Inr split: option.splits)
  have "without ''u'' s' = without ''u'' s" using s' by (rule setProp_without)
  then show ?thesis
    unfolding blank_media_def using m1 s by (rule setProp_at_member [rotated 2])
qed

lemma update_gallery_blank:
  "update_gallery urls i medias = Inr medias' \<Longrightarrow>
     map blank_media medias' = map blank_media medias \<and> length medias' = length medias"
proof (induction medias arbitrary: i medias')
  case Nil
  then show ?case by simp
next
  case (Cons media medias)
  then show ?case
    by (auto simp: and_then_Inr split: if_splits dest!: setProp2_blank_media)
qed

lemma zip_keys_blank:
  "length vs = length kvs \<Longrightarrow> map E vs = map E (map snd kvs) \<Longrightarrow>
     map (\<lambda>(k, x). (k, E x)) (zip (map fst kvs) vs) = map (\<lambda>(k, x). (k, E x)) kvs"
proof (induction kvs arbitrary: vs)
  case Nil
  then show ?case by simp
next
  case (Cons kv kvs)
  then show ?case by (cases vs) (auto simp: case_prod_beta)
qed

lemma update_media_metadata_blank:
  assumes "update_media_metadata urls mm = Inr mm'"
  shows "blank_gallery mm' = blank_gallery mm"
proof (cases mm)
  case (JObj kvs)
  with assms obtain vs where vs: "update_gallery urls 0 (map snd kvs) = Inr vs"
    and mm': "mm' = JObj (zip (map fst kvs) vs)"
    by (auto simp: update_media_metadata_def and_then_Inr)
  from update_gallery_blank [OF vs] show ?thesis
    by (simp add: JObj mm' blank_gallery_def each_member_def zip_keys_blank)
next
  case (JArr xs)
  with assms obtain vs where vs: "update_gallery urls 0 xs = Inr vs" and mm': "mm' = JArr vs"
    by (auto simp: update_media_metadata_def and_then_Inr)
  from update_gallery_blank [OF vs] show ?thesis
    by (simp add: JArr mm' blank_gallery_def each_member_def)
qed (use assms in \<open>auto simp: update_media_metadata_def\<close>)

lemma optProp_Some: "v \<noteq> JNull \<Longrightarrow> optProp (Some v) k = own_prop v k"
  by (cases v) (simp_all add: optProp_def)

lemma optProp_SomeD: "optProp v k = Some x \<Longrightarrow> \<exists>kvs. v = Some (JObj kvs) \<and> map_of kvs k = Some x"
  by (cases v rule: truthy.cases) (simp_all add: optProp_def)

lemma updateMediaUrls_within:
  assumes g: "\<And>x. g ''url'' x = None" "\<And>x. g ''preview'' x = Some (blank_preview x)"
    "\<And>x. g ''media_metadata'' x = Some (blank_gallery x)"
    and upd: "updateMediaUrls post urls = Inr post'"
  shows "within g post' = within g post"
proof -
  from upd obtain post1 post2 where
    s1: "(if length urls = 1 \<and> truthy (own_prop post ''url'')
             \<and> isImageUrl (join_elem (own_prop post ''url''))
          then setProp post ''url'' (JStr (urls ! 0)) else Inr post) = Inr post1"
    and s2: "(if truthy (optProp (own_prop post1 ''preview'') ''images'') \<and> length urls > 0
        then (case (own_prop post1 ''preview'', optProp (own_prop post1 ''preview'') ''images'') of
                (Some preview, Some (JArr images)) \<Rightarrow>
                  and_then (update_images urls 0 images) (\<lambda>images'.
                  and_then (setProp preview ''images'' (JArr images')) (\<lambda>preview'.
                    setProp post1 ''preview'' preview'))
              | _ \<Rightarrow> Inl TypeError)
        else Inr post1) = Inr post2"
    and s3: "(if truthy (own_prop post2 ''media_metadata'') \<and> length urls > 0
       then (case own_prop post2 ''media_metadata'' of
               None \<Rightarrow> Inr post2
             | Some mm \<Rightarrow>
                 and_then (update_media_metadata urls mm)
                   (\<lambda>mm'. setProp post2 ''media_metadata'' mm'))
       else Inr post2) = Inr post'"
    unfolding updateMediaUrls_def and_then_Inr by blast
  have e1: "within g post1 = within g post"
  proof (cases "length urls = 1 \<and> truthy (own_prop post ''url'')
             \<and> isImageUrl (join_elem (own_prop post ''url''))")
    case True
    with s1 have "setProp post ''url'' (JStr (urls ! 0)) = Inr post1" by simp
    then show ?thesis by (rule setProp_within) (simp add: g split: option.splits)
  next
    case False
    with s1 show ?thesis by (auto split: if_splits)
  qed
  have e2: "within g post2 = within g post1"
  proof (cases "truthy (optProp (own_prop post1 ''preview'') ''images'') \<and> length urls > 0")
    case False
    with s2 show ?thesis by auto
  next
    case True
    with s2 obtain preview images images' preview' where
      p: "own_prop post1 ''preview'' = Some preview"
      and i: "optProp (Some preview) ''images'' = Some (JArr images)"
      and u: "update_images urls 0 images = Inr images'"
      and sp: "setProp preview ''images'' (JArr images') = Inr preview'"
      and spp: "setProp post1 ''preview'' preview' = Inr post2"
      by (auto simp: and_then_Inr split: option.splits json.splits)
    from i have i': "own_prop preview ''images'' = Some (JArr images)"
      by (auto dest!: optProp_SomeD)
    have "blank_preview preview' = blank_preview preview"
      unfolding blank_preview_def using sp i'
      by (rule setProp_at_member) (simp add: each_def update_images_blank [OF u])
    then show ?thesis
      using p by (intro setProp_within [OF spp]) (simp add: g)
  qed
  have e3: "within g post' = within g post2"
  proof (cases "truthy (own_prop post2 ''media_metadata'') \<and> length urls > 0")
    case False
    with s3 show ?thesis by auto
  next
    case True
    with s3 obtain mm mm' where m: "own_prop post2 ''media_metadata'' = Some mm"
      and u: "update_media_metadata urls mm = Inr mm'"
      and sp: "setProp post2 ''media_metadata'' mm' = Inr post'"
      by (auto simp: and_then_Inr split: option.splits)
    show ?thesis
      using m update_media_metadata_blank [OF u]
      by (intro setProp_within [OF sp]) (simp add: g)
  qed
  show ?thesis by (simp add: e1 e2 e3)
qed

lemma apply_processed_blank:
  assumes "apply_processed hs processedPost post = Inr post'"
  shows "blank_post processedPost post' = blank_post processedPost post"
proof -
  let ?g = "blank_fields processedPost"
  from assms obtain post1 post2 where
    s1: "(if nonempty (processedTitle processedPost)
        then setProp post ''title'' (JStr (processMarkedText hs (text_of (processedTitle processedPost))))
        else Inr post) = Inr post1"
    and s2: "(if nonempty (processedBody processedPost)
        then and_then
               (setProp post1 ''selftext''
                  (JStr (processMarkedText hs (text_of (processedBody processedPost)))))
               (\<lambda>p. setProp p ''selftext_html''
                  (JStr (processMarkedText hs (text_of (processedBody processedPost)))))
        else Inr post1) = Inr post2"
    and s3: "(if has_media processedPost
       then updateMediaUrls post2 (case processedMediaUrls processedPost of None \<Rightarrow> [] | Some urls \<Rightarrow> urls)
       else Inr post2) = Inr post'"
    unfolding apply_processed_def and_then_Inr by blast
  have e1: "within ?g post1 = within ?g post"
  proof (cases "nonempty (processedTitle processedPost)")
    case True
    with s1 have "setProp post ''title'' (JStr (processMarkedText hs (text_of (processedTitle processedPost)))) = Inr post1"
      by simp
    then show ?thesis
      by (rule setProp_within) (simp add: blank_fields_def True split: option.splits)
  next
    case False
    with s1 show ?thesis by simp
  qed
  have e2: "within ?g post2 = within ?g post1"
  proof (cases "nonempty (processedBody processedPost)")
    case True
    with s2 obtain p where
      a: "setProp post1 ''selftext'' (JStr (processMarkedText hs (text_of (processedBody processedPost)))) = Inr p"
      and b: "setProp p ''selftext_html'' (JStr (processMarkedText hs (text_of (processedBody processedPost)))) = Inr post2"
      by (auto simp: and_then_Inr)
    have "within ?g p = within ?g post1"
      using a by (rule setProp_within) (simp add: blank_fields_def True split: option.splits)
    moreover have "within ?g post2 = within ?g p"
      using b by (rule setProp_within) (simp add: blank_fields_def True split: option.splits)
    ultimately show ?thesis by simp
  next
    case False
    with s2 show ?thesis by simp
  qed
  have e3: "within ?g post' = within ?g post2"
  proof (cases "has_media processedPost")
    case True
    with s3 have "updateMediaUrls post2 (case processedMediaUrls processedPost of None \<Rightarrow> [] | Some urls \<Rightarrow> urls) = Inr post'"
      by simp
    then show ?thesis
      by (intro updateMediaUrls_within) (simp_all add: blank_fields_def True)
  next
    case False
    with s3 show ?thesis by simp
  qed
  show ?thesis by (simp add: blank_post_def e1 e2 e3)
qed

lemma setProp_kind: "setProp obj k v = Inr obj' \<Longrightarrow> (obj' = JNull) = (obj = JNull)"
  by (cases obj) auto

lemma updateMediaUrls_not_null:
  "updateMediaUrls post urls = Inr post' \<Longrightarrow> post \<noteq> JNull \<Longrightarrow> post' \<noteq> JNull"
  by (auto simp: updateMediaUrls_def and_then_Inr split: if_splits option.splits json.splits
      dest!: setProp_kind)

lemma apply_processed_not_null:
  "apply_processed hs processedPost post = Inr post' \<Longrightarrow> post \<noteq> JNull \<Longrightarrow> post' \<noteq> JNull"
  by (auto simp: apply_processed_def and_then_Inr split: if_splits
      dest!: setProp_kind updateMediaUrls_not_null)

lemma apply_processed_same_key:
  assumes "apply_processed hs processedPost post = Inr post'" and "post \<noteq> JNull"
  shows "processed_for m (Some post') = processed_for m (Some post)"
proof -
  have eq: "own_prop post' k = own_prop post k" if "k = ''name'' \<or> k = ''id''" for k
  proof -
    have "own_prop (blank_post processedPost post') k = own_prop post' k"
      "own_prop (blank_post processedPost post) k = own_prop post k"
      unfolding blank_post_def using that
      by (auto intro!: own_prop_within simp: blank_fields_def)
    then show ?thesis using apply_processed_blank [OF assms(1)] by simp
  qed
  have nn: "post' \<noteq> JNull" using assms by (rule apply_processed_not_null)
  have "getProp (Some p) k = Inr (own_prop p k)" if "p \<noteq> JNull" for p k
    using that by (cases p) (simp_all add: getProp_def)
  then show ?thesis
    using nn assms(2) by (simp add: processed_for_def optProp_Some eq)
qed

lemma own_prop_setProp:
  "setProp obj k v = Inr obj' \<Longrightarrow> k' \<noteq> k \<Longrightarrow> own_prop obj' k' = own_prop obj k'"
  by (cases obj) (auto simp: update_conv')

lemma own_prop_setProp_same:
  "setProp obj k v = Inr obj' \<Longrightarrow> own_prop obj k = Some v0 \<Longrightarrow> own_prop obj' k = Some v"
  by (cases obj) (auto simp: update_conv')

lemma processed_for_SomeD:
  "processed_for m post = Inr (Some processedPost) \<Longrightarrow> post \<noteq> None \<and> post \<noteq> Some JNull"
  by (cases post rule: truthy.cases) (auto simp: processed_for_def getProp_def and_then_def)

lemma update_child_blank:
  assumes "update_child hs m child = Inr child'"
  shows "blank_child m child' = blank_child m child"
proof (cases "child \<noteq> JNull \<and> own_prop child ''kind'' = Some (JStr ''t3'')")
  case False
  with assms show ?thesis by (auto simp: update_child_def split: if_splits)
next
  case True
  with assms obtain found where f: "processed_for m (own_prop child ''data'') = Inr found"
    and rest: "(case (found, own_prop child ''data'') of
               (Some processedPost, Some post) \<Rightarrow>
                 and_then (apply_processed hs processedPost post) (\<lambda>post'. setProp child ''data'' post')
             | _ \<Rightarrow> Inr child) = Inr child'"
    by (auto simp: update_child_def and_then_Inr)
  show ?thesis
  proof (cases "\<exists>pp post. found = Some pp \<and> own_prop child ''data'' = Some post")
    case False
    with rest show ?thesis by (auto split: option.splits)
  next
    case True
    then obtain pp post where pp: "found = Some pp" and post: "own_prop child ''data'' = Some post"
      by blast
    with rest obtain post' where ap: "apply_processed hs pp post = Inr post'"
      and sp: "setProp child ''data'' post' = Inr child'"
      by (auto simp: and_then_Inr)
    from f pp post have nn: "post \<noteq> JNull" by (auto dest!: processed_for_SomeD)
    have kind: "own_prop child' ''kind'' = Some (JStr ''t3'')"
      using own_prop_setProp [OF sp, of "''kind''"] \<open>child \<noteq> JNull \<and> _\<close> by simp
    have data: "own_prop child' ''data'' = Some post'"
      using sp post by (rule own_prop_setProp_same)
    have same: "processed_for m (Some post') = Inr (Some pp)"
      using apply_processed_same_key [OF ap nn, of m] f pp post by simp
    have "at_member ''data'' (blank_post pp) child' = at_member ''data'' (blank_post pp) child"
      using sp post apply_processed_blank [OF ap] by (rule setProp_at_member)
    then show ?thesis
      using \<open>child \<noteq> JNull \<and> _\<close> f pp post kind data same by (simp add: blank_child_def)
  qed
qed

lemma listing_shapeD:
  assumes "listing_shape data"
  obtains kvs d cs where "data = JObj kvs" "own_prop data ''data'' = Some d"
    "own_prop d ''children'' = Some (JArr cs)" "listing_children data = cs"
proof -
  from assms obtain cs where c: "optProp (own_prop data ''data'') ''children'' = Some (JArr cs)"
    by (auto simp: listing_shape_def isArray_def split: option.splits json.splits)
  then obtain dk where d: "own_prop data ''data'' = Some (JObj dk)" "map_of dk ''children'' = Some (JArr cs)"
    by (auto dest!: optProp_SomeD)
  from d(1) obtain kvs where "data = JObj kvs" by (cases data) auto
  then show ?thesis using that d c by (simp add: listing_children_def)
qed

lemma update_listing_blank:
  assumes "update_listing hs m data = Inr data'" and "listing_shape data"
  shows "blank_listing m data' = blank_listing m data
       \<and> map (blank_child m) (listing_children data') = map (blank_child m) (listing_children data)
       \<and> (\<forall>i. own_index data' i = own_index data i)"
proof -
  from assms(2) obtain kvs d cs where data: "data = JObj kvs" and d: "own_prop data ''data'' = Some d"
    and c: "own_prop d ''children'' = Some (JArr cs)" and lc: "listing_children data = cs"
    by (rule listing_shapeD)
  from assms(1) d lc obtain cs' d' where t: "traverse (update_child hs m) cs = Inr cs'"
    and sd: "setProp d ''children'' (JArr cs') = Inr d'"
    and sdata: "setProp data ''data'' d' = Inr data'"
    by (auto simp: update_listing_def and_then_Inr)
  have m: "map (blank_child m) cs' = map (blank_child m) cs"
    using t by (rule traverse_map) (rule update_child_blank)
  have "at_member ''children'' (each (blank_child m)) d' = at_member ''children'' (each (blank_child m)) d"
    using sd c by (rule setProp_at_member) (simp add: each_def m)
  with sdata d have 1: "blank_listing m data' = blank_listing m data"
    unfolding blank_listing_def by (rule setProp_at_member)
  have d': "own_prop data' ''data'' = Some d'" using sdata d by (rule own_prop_setProp_same)
  have c': "own_prop d' ''children'' = Some (JArr cs')" using sd c by (rule own_prop_setProp_same)
  have dn: "d' \<noteq> JNull" using c' by auto
  have 2: "listing_children data' = cs'"
    by (simp add: listing_children_def d' optProp_Some [OF dn] c')
  have ne: "string_of_nat i \<noteq> ''data''" for i
    by (subst string_of_nat.simps) (auto simp: digit_char_def nth_Cons' split: if_splits)
  have 3: "own_index data' i = own_index data i" for i
    using sdata ne [of i] by (auto simp: data update_conv')
  show ?thesis using 1 2 3 m lc by simp
qed

lemma detail_shape_cong:
  "(\<And>i. own_index data' i = own_index data i) \<Longrightarrow> detail_shape data' = detail_shape data"
  by (simp add: detail_shape_def)

text \<open>
  C2. For a response that parses to a Reddit listing (and has not the shape of a post
  detail as well): either the update throws inside and the original text is returned, or
  the result is the text of a tree that equals the original once the fields present on the
  matching processed posts are removed from the \<open>t3\<close> posts whose ids are in the map
  (title; \<open>selftext\<close> and \<open>selftext_html\<close>; \<open>url\<close> and the media URLs under
  \<open>preview\<close> and \<open>media_metadata\<close>). Children that are no such posts are the same
  in both trees.
\<close>

theorem merge_patch_listing:
  assumes "parse originalResponse = Some data" and "listing_shape data"
    and "\<not> detail_shape data"
  shows "case update_tree hs (processedPostMap processedPosts) data of
           Inl e \<Rightarrow>
             updateResponseWithProcessedPosts parse stringify hs originalResponse processedPosts
               = Inr originalResponse
         | Inr data' \<Rightarrow>
             updateResponseWithProcessedPosts parse stringify hs originalResponse processedPosts
               = Inr (stringify data')
             \<and> blank_listing (processedPostMap processedPosts) data'
                 = blank_listing (processedPostMap processedPosts) data
             \<and> map (blank_child (processedPostMap processedPosts)) (listing_children data')
                 = map (blank_child (processedPostMap processedPosts)) (listing_children data)"
proof -
  let ?m = "processedPostMap processedPosts"
  from assms(2) have nn: "data \<noteq> JNull" by (auto simp: listing_shape_def)
  show ?thesis
  proof (cases "update_listing hs ?m data")
    case (Inl e)
    then have "update_tree hs ?m data = Inl e"
      using nn assms(2) by (simp add: update_tree_def and_then_def)
    then show ?thesis
      using assms(1) by (simp add: updateResponseWithProcessedPosts_def)
  next
    case (Inr data1)
    note b = update_listing_blank [OF Inr assms(2)]
    from b have "detail_shape data1 = detail_shape data" by (intro detail_shape_cong) simp
    with assms(3) have "update_tree hs ?m data = Inr data1"
      using nn assms(2) Inr by (simp add: update_tree_def and_then_def)
    then show ?thesis
      using assms(1) b by (simp add: updateResponseWithProcessedPosts_def)
  qed
qed

lemma example_update:
  "update_tree builtin_handlers (processedPostMap [example_processed]) example_listing
     = Inr example_merged"
  by code_simp

theorem merge_patch_listing_witness:
  "example_parse example_text = Some example_listing
   \<and> listing_shape example_listing
   \<and> \<not> detail_shape example_listing
   \<and> update_tree builtin_handlers (processedPostMap [example_processed]) example_listing
       = Inr example_merged
   \<and> updateResponseWithProcessedPosts example_parse example_stringify builtin_handlers
        example_text [example_processed] = Inr example_merged_text
   \<and> blank_listing (processedPostMap [example_processed]) example_merged
       = blank_listing (processedPostMap [example_processed]) example_listing"
proof -
  have h1: "example_parse example_text = Some example_listing"
    by (simp add: example_parse_def)
  have h2: "listing_shape example_listing"
    by (simp add: listing_shape_def example_listing_def isArray_def optProp_def)
  have h3: "\<not> detail_shape example_listing"
    by (simp add: detail_shape_def example_listing_def optProp_def optIndex_def
        string_of_nat.simps digit_char_def)
  show ?thesis
    using h1 h2 h3 example_update
      merge_patch_listing [where parse = example_parse and originalResponse = example_text
        and hs = builtin_handlers and processedPosts = "[example_processed]"
        and stringify = example_stringify, OF h1 h2 h3]
    by (simp add: example_stringify_def)
qed

text \<open>
  C1. \<open>shouldInterceptUrl\<close> returns \<open>false\<close> when the URL does not parse;
  \<open>extractPosts\<close> returns no posts when the response is no JSON or has none of the two
  shapes; \<open>updateResponseWithProcessedPosts\<close> returns the original text when it is no
  JSON. Each of the three returns a value on every input, that is, none throws.
\<close>

theorem fail_open_at_parse_boundaries:
  "(parseUrl url = None \<longrightarrow> shouldInterceptUrl parseUrl url subscribedEndpoints = Inr False)
   \<and> (\<exists>b. shouldInterceptUrl parseUrl url subscribedEndpoints = Inr b)
   \<and> ((case parse responseData of None \<Rightarrow> True | Some data \<Rightarrow> \<not> recognized_shape data)
        \<longrightarrow> extractPosts parse responseData = Inr [])
   \<and> (\<exists>posts. extractPosts parse responseData = Inr posts)
   \<and> (parse originalResponse = None \<longrightarrow>
        updateResponseWithProcessedPosts parse stringify hs originalResponse processedPosts
          = Inr originalResponse)
   \<and> (\<exists>s. updateResponseWithProcessedPosts parse stringify hs originalResponse processedPosts = Inr s)"
proof -
  have 1: "parseUrl url = None \<longrightarrow> shouldInterceptUrl parseUrl url subscribedEndpoints = Inr False"
    by (simp add: shouldInterceptUrl_def)
  have 2: "\<exists>b. shouldInterceptUrl parseUrl url subscribedEndpoints = Inr b"
    by (cases "parseUrl url") (auto simp: shouldInterceptUrl_def Let_def)
  have 3: "(case parse responseData of None \<Rightarrow> True | Some data \<Rightarrow> \<not> recognized_shape data)
        \<longrightarrow> extractPosts parse responseData = Inr []"
    by (auto simp: extractPosts_def extract_body_def recognized_shape_def and_then_def
        split: option.splits sum.splits)
  have 4: "\<exists>posts. extractPosts parse responseData = Inr posts"
    by (simp add: extractPosts_def split: option.splits sum.splits)
  have 5: "parse originalResponse = None \<longrightarrow>
        updateResponseWithProcessedPosts parse stringify hs originalResponse processedPosts
          = Inr originalResponse"
    by (simp add: updateResponseWithProcessedPosts_def)
  have 6: "\<exists>s. updateResponseWithProcessedPosts parse stringify hs originalResponse processedPosts = Inr s"
    by (simp add: updateResponseWithProcessedPosts_def split: option.splits sum.splits)
  show ?thesis using 1 2 3 4 5 6 by blast
qed

theorem fail_open_at_parse_boundaries_witness:
  "shouldInterceptUrl (\<lambda>u. None) ''/svc/shreddit/feeds/home-feed'' [''home-feed''] = Inr False
   \<and> example_parse ''not json'' = None
   \<and> extractPosts example_parse ''not json'' = Inr []
   \<and> \<not> recognized_shape (JObj [(''foo'', JNum 1)])
   \<and> extractPosts example_parse ''{\"foo\":1}'' = Inr []
   \<and> updateResponseWithProcessedPosts example_parse example_stringify builtin_handlers
        ''not json'' [example_processed] = Inr ''not json''"
proof -
  have p: "example_parse ''not json'' = None" by (simp add: example_parse_def example_text_def)
  have q: "example_parse ''{\"foo\":1}'' = Some (JObj [(''foo'', JNum 1)])"
    by (simp add: example_parse_def example_text_def)
  have r: "\<not> recognized_shape (JObj [(''foo'', JNum 1)])"
    by (simp add: recognized_shape_def listing_shape_def detail_shape_def optProp_def optIndex_def
        string_of_nat.simps digit_char_def)
  show ?thesis
    using p r
      fail_open_at_parse_boundaries [of "\<lambda>u. None" "''/svc/shreddit/feeds/home-feed''" "[''home-feed'']"
        example_parse "''not json''" "''not json''" example_stringify builtin_handlers "[example_processed]"]
      fail_open_at_parse_boundaries [of "\<lambda>u. None" "''/svc/shreddit/feeds/home-feed''" "[''home-feed'']"
        example_parse "''{\"foo\":1}''" "''not json''" example_stringify builtin_handlers "[example_processed]"]
    by (simp add: q)
qed

end
